theory Spec2Isabelle
  imports Complex_Main "HOL-Library.Word"
begin

section \<open>Python values used by the cache\<close>

text \<open>
  The exceptions the modelled code can raise. \<open>KeyError\<close>: subscripting or deleting a
  missing dictionary key. \<open>TypeError\<close>: adding a plain \<open>Enum\<close> member to an \<open>int\<close>.
  \<open>ValueError\<close>: \<open>min\<close> of an empty iterable. \<open>ZeroDivisionError\<close>: float division
  by zero. \<open>OSError\<close>: the backing file cannot be opened, or \<open>seek\<close> to a negative offset.
\<close>

datatype error = KeyError | TypeError | ValueError | ZeroDivisionError | OSError

type_synonym bytes = "8 word list"

text \<open>
  A Python \<open>dict\<close> is an association list in insertion order with distinct keys: iteration
  follows the list, storing under a resident key replaces the value in place, storing under a
  new key appends, and \<open>del\<close> removes the key.
\<close>

fun dict_get :: "('k \<times> 'v) list \<Rightarrow> 'k \<Rightarrow> 'v option" where
  "dict_get [] k = None"
| "dict_get ((k', v) # d) k = (if k' = k then Some v else dict_get d k)"

fun dict_set :: "('k \<times> 'v) list \<Rightarrow> 'k \<Rightarrow> 'v \<Rightarrow> ('k \<times> 'v) list" where
  "dict_set [] k v = [(k, v)]"
| "dict_set ((k', v') # d) k v = (if k' = k then (k, v) # d else (k', v') # dict_set d k v)"

fun dict_del :: "('k \<times> 'v) list \<Rightarrow> 'k \<Rightarrow> ('k \<times> 'v) list" where
  "dict_del [] k = []"
| "dict_del ((k', v') # d) k = (if k' = k then d else (k', v') # dict_del d k)"

definition dict_in :: "'k \<Rightarrow> ('k \<times> 'v) list \<Rightarrow> bool" where
  "dict_in k d = (dict_get d k \<noteq> None)"

text \<open>
  A float is a real number, and a float operation returns the rounding of its exact result:
  the rounding function is part of the environment of a run (\<open>fl_round\<close> below), so that
  what is proved holds for every rounding, that of IEEE doubles and exact arithmetic included.
  Overflow and NaN are outside the model. The one infinite value the code uses,
  \<open>float("inf")\<close>, is \<open>PInf\<close>; it is the initial running minimum of the selection loops and
  the result of numpy's division of one by zero.
\<close>

datatype ext = Fin real | PInf

fun ext_less :: "ext \<Rightarrow> ext \<Rightarrow> bool" where
  "ext_less (Fin a) (Fin b) = (a < b)"
| "ext_less (Fin a) PInf = True"
| "ext_less PInf b = False"

text \<open>The quotient of a score by a positive number, rounded by \<open>r\<close>.\<close>

fun ext_div :: "(real \<Rightarrow> real) \<Rightarrow> ext \<Rightarrow> real \<Rightarrow> ext" where
  "ext_div r (Fin a) c = Fin (r (a / c))"
| "ext_div r PInf c = PInf"

text \<open>
  A Python number is an \<open>int\<close> or a \<open>float\<close>: arithmetic on two \<open>int\<close>s is exact, and
  an \<open>int\<close> is converted to a \<open>float\<close> when the other operand is one.
\<close>

datatype number = PyInt int | PyFloat real

fun number_value :: "number \<Rightarrow> real" where
  "number_value (PyInt i) = real_of_int i"
| "number_value (PyFloat x) = x"

section \<open>cache\_infra.py\<close>

datatype BlockSize = B8 | B64

fun BlockSize_value :: "BlockSize \<Rightarrow> nat" where
  "BlockSize_value B8 = 8"
| "BlockSize_value B64 = 64"

datatype CacheKey = CacheKey (offset: int) (key_size: BlockSize)

datatype CacheValue = CacheValue (data: bytes) (access_time: real) (hit_count: int)

type_synonym cache_dict = "(CacheKey \<times> CacheValue) list"

section \<open>The environment of a run\<close>

text \<open>
  \<open>time_time\<close> is the clock: the \<open>n\<close>-th call of \<open>time.time()\<close> of a run returns
  \<open>time_time env n\<close>, and the position \<open>n\<close> is threaded through every function that reads it.
  \<open>set_order\<close> is the order in which a Python \<open>set\<close> of keys is iterated (it depends on the
  hashes). \<open>files\<close> gives the content of the file at a path, \<open>None\<close> when it cannot be opened.
  \<open>fl_round\<close> is the rounding of float arithmetic.
\<close>

record env =
  time_time :: "nat \<Rightarrow> real"
  set_order :: "CacheKey list \<Rightarrow> CacheKey list"
  files :: "string \<Rightarrow> bytes option"
  fl_round :: "real \<Rightarrow> real"

section \<open>evictor\_policies.py\<close>

text \<open>
  The selection loops \<open>for key, score in ...: if key in cache and score < min_score: victim =
  key; min_score = score\<close>, over the scores in iteration order. \<open>ok\<close> is the residency test
  (constantly true in \<open>choose_oldest\<close>, which iterates the cache itself).
\<close>

fun min_scan :: "(CacheKey \<Rightarrow> bool) \<Rightarrow> (CacheKey \<times> ext) list \<Rightarrow> CacheKey option \<times> ext
    \<Rightarrow> CacheKey option \<times> ext" where
  "min_scan ok [] acc = acc"
| "min_scan ok ((key, score) # rest) (victim, min_score) =
     min_scan ok rest
       (if ok key \<and> ext_less score min_score then (Some key, score) else (victim, min_score))"

definition choose_oldest :: "cache_dict \<Rightarrow> CacheKey option" where
  "choose_oldest cache =
     fst (min_scan (\<lambda>_. True) (map (\<lambda>(key, v). (key, Fin (access_time v))) cache) (None, PInf))"

datatype evictor =
    LFUDADecayFactorEvictor
      (recent_accesses: "(CacheKey \<times> real list) list")
      (max_recent_accesses: nat)
      (decay_factor: real)
  | LFUDAEvictor
      (frequency_count: "(CacheKey \<times> int) list")
      (last_access_time: "(CacheKey \<times> real) list")
  | LRUEvictor
  | LFUEvictor (lfu_frequency_count: "(CacheKey \<times> int) list")
  | HotBlockEvictor (hot_block_threshold: real) (hot_blocks: "(CacheKey \<times> int) list")

subsection \<open>LFUDADecayFactorEvictor\<close>

text \<open>\<open>deque(maxlen=m).append(x)\<close>: the new item goes to the right end and, when the deque
  is full, items are dropped from the left.\<close>

definition deque_append :: "nat \<Rightarrow> real list \<Rightarrow> real \<Rightarrow> real list" where
  "deque_append m q x = drop (length (q @ [x]) - m) (q @ [x])"

text \<open>
  \<open>sum(access_timestamps * (decay_factor ** np.arange(len(access_timestamps))))\<close>: numpy
  raises the factor to the powers 0, 1, ... and multiplies elementwise, and the builtin \<open>sum\<close>
  adds the products from the left, starting from 0.
\<close>

definition fl_sum :: "env \<Rightarrow> real list \<Rightarrow> real" where
  "fl_sum e xs = foldl (\<lambda>acc x. fl_round e (acc + x)) 0 xs"

definition decayed_sum :: "env \<Rightarrow> real \<Rightarrow> real list \<Rightarrow> real" where
  "decayed_sum e d q =
     fl_sum e (map (\<lambda>(t, i). fl_round e (t * fl_round e (d ^ i))) (zip q [0..<length q]))"

text \<open>The quotient \<open>1 / x\<close> of numpy's \<open>float64\<close>: a zero divisor gives \<open>inf\<close> (with a
  warning), not an exception.\<close>

definition np_recip :: "env \<Rightarrow> real \<Rightarrow> ext" where
  "np_recip e x = (if x = 0 then PInf else Fin (fl_round e (1 / x)))"

definition decay_score :: "env \<Rightarrow> real \<Rightarrow> real \<Rightarrow> CacheKey \<Rightarrow> real list \<Rightarrow> ext" where
  "decay_score e d current_time key access_timestamps =
     (let recency_score =
            (if access_timestamps \<noteq> []
             then np_recip e (fl_round e (fl_round e (current_time * 2)
                                          - decayed_sum e d access_timestamps))
             else Fin 0)
      in if key_size key = B64 then ext_div (fl_round e) recency_score 8 else recency_score)"

definition decay_choose_victim ::
    "env \<Rightarrow> (CacheKey \<times> real list) list \<Rightarrow> real \<Rightarrow> cache_dict \<Rightarrow> nat \<Rightarrow> CacheKey option \<times> nat" where
  "decay_choose_victim e ra d cache now =
     (let current_time = time_time e now
      in (fst (min_scan (\<lambda>key. dict_in key cache)
                 (map (\<lambda>(key, q). (key, decay_score e d current_time key q)) ra) (None, PInf)),
          Suc now))"

definition decay_update_internal_cache ::
    "env \<Rightarrow> (CacheKey \<times> real list) list \<Rightarrow> nat \<Rightarrow> CacheKey \<Rightarrow> nat
      \<Rightarrow> (CacheKey \<times> real list) list \<times> nat" where
  "decay_update_internal_cache e ra m key now =
     (let ra1 = (if \<not> dict_in key ra then dict_set ra key [] else ra);
          q = (case dict_get ra1 key of Some q \<Rightarrow> q | None \<Rightarrow> [])
      in (dict_set ra1 key (deque_append m q (time_time e now)), Suc now))"

subsection \<open>LFUDAEvictor\<close>

text \<open>Python's float quotient \<open>a / b\<close> raises on a zero divisor.\<close>

definition py_truediv :: "env \<Rightarrow> real \<Rightarrow> real \<Rightarrow> error + real" where
  "py_truediv e a b = (if b = 0 then Inl ZeroDivisionError else Inr (fl_round e (a / b)))"

text \<open>
  The recency term of one iteration of the first loop of \<open>choose_victim\<close>. The clock is read
  once for \<open>time_passed\<close> and, in the last branch, once more for the quotient. A recorded
  time of \<open>0.0\<close> is falsy, so \<open>not self.last_access_time.get(key)\<close> holds for it as for a
  missing key. The terms 1 and 0 are \<open>int\<close>s, the quotient is a \<open>float\<close>.
\<close>

definition lfuda_recency :: "env \<Rightarrow> real option \<Rightarrow> nat \<Rightarrow> error + (number \<times> nat)" where
  "lfuda_recency e last_time now =
     (let time_passed =
            fl_round e (time_time e now - (case last_time of Some t \<Rightarrow> t | None \<Rightarrow> 0))
      in if time_passed = 0 then Inr (PyInt 1, Suc now)
         else (case last_time of
                 None \<Rightarrow> Inr (PyInt 0, Suc now)
               | Some t \<Rightarrow>
                   if t = 0 then Inr (PyInt 0, Suc now)
                   else (case py_truediv e 1 (fl_round e (time_time e (Suc now) - t)) of
                           Inl err \<Rightarrow> Inl err
                         | Inr r \<Rightarrow> Inr (PyFloat r, Suc (Suc now)))))"

text \<open>\<open>value + recency_score\<close>, with the \<open>int\<close> count \<open>value\<close>.\<close>

fun py_add_int :: "env \<Rightarrow> int \<Rightarrow> number \<Rightarrow> number" where
  "py_add_int e v (PyInt i) = PyInt (v + i)"
| "py_add_int e v (PyFloat x) = PyFloat (fl_round e (fl_round e (real_of_int v) + x))"

text \<open>\<open>combined_score if key.size == BlockSize.B8 else combined_score / 8\<close>\<close>

definition lfuda_stored_score :: "env \<Rightarrow> CacheKey \<Rightarrow> number \<Rightarrow> real" where
  "lfuda_stored_score e key combined_score =
     (if key_size key = B8 then number_value combined_score
      else fl_round e (number_value combined_score / 8))"

fun lfuda_scores :: "env \<Rightarrow> (CacheKey \<times> real) list \<Rightarrow> (CacheKey \<times> int) list \<Rightarrow> nat
    \<Rightarrow> error + ((CacheKey \<times> ext) list \<times> nat)" where
  "lfuda_scores e la [] now = Inr ([], now)"
| "lfuda_scores e la ((key, v) # rest) now =
     (case lfuda_recency e (dict_get la key) now of
        Inl err \<Rightarrow> Inl err
      | Inr (recency_score, now1) \<Rightarrow>
          (let combined_score = py_add_int e v recency_score;
               entry = (key, Fin (lfuda_stored_score e key combined_score))
           in case lfuda_scores e la rest now1 of
                Inl err \<Rightarrow> Inl err
              | Inr (scores, now2) \<Rightarrow> Inr (entry # scores, now2)))"

definition lfuda_choose_victim ::
    "env \<Rightarrow> (CacheKey \<times> int) list \<Rightarrow> (CacheKey \<times> real) list \<Rightarrow> cache_dict \<Rightarrow> nat
      \<Rightarrow> error + (CacheKey option \<times> nat)" where
  "lfuda_choose_victim e fc la cache now =
     (case lfuda_scores e la fc now of
        Inl err \<Rightarrow> Inl err
      | Inr (combined_scores, now1) \<Rightarrow>
          Inr (fst (min_scan (\<lambda>key. dict_in key cache) combined_scores (None, PInf)), now1))"

definition lfuda_update_internal_cache ::
    "env \<Rightarrow> (CacheKey \<times> int) list \<Rightarrow> (CacheKey \<times> real) list \<Rightarrow> CacheKey \<Rightarrow> nat
      \<Rightarrow> ((CacheKey \<times> int) list \<times> (CacheKey \<times> real) list) \<times> nat" where
  "lfuda_update_internal_cache e fc la key now =
     (let fc1 = (if \<not> dict_in key fc then dict_set fc key 0 else fc);
          c = (case dict_get fc1 key of Some c \<Rightarrow> c | None \<Rightarrow> 0)
      in ((dict_set fc1 key (c + 1), dict_set la key (time_time e now)), Suc now))"

subsection \<open>LFUEvictor\<close>

text \<open>The loop that bumps the counter of every resident key.\<close>

fun lfu_bump :: "(CacheKey \<times> int) list \<Rightarrow> CacheKey list \<Rightarrow> (CacheKey \<times> int) list" where
  "lfu_bump fc [] = fc"
| "lfu_bump fc (key # keys) =
     (let fc1 = (if \<not> dict_in key fc then dict_set fc key 0 else fc);
          c = (case dict_get fc1 key of Some c \<Rightarrow> c | None \<Rightarrow> 0)
      in lfu_bump (dict_set fc1 key (c + 1)) keys)"

text \<open>\<open>min(iterable, key=f)\<close>: the first item with the least \<open>f\<close>, and \<open>ValueError\<close> on
  an empty iterable. Here \<open>f\<close> is \<open>frequency_count.get\<close>; the loop before has given
  every resident key a counter.\<close>

fun min_from :: "('a \<Rightarrow> int) \<Rightarrow> 'a \<Rightarrow> 'a list \<Rightarrow> 'a" where
  "min_from f best [] = best"
| "min_from f best (x # xs) = min_from f (if f x < f best then x else best) xs"

definition py_min :: "('a \<Rightarrow> int) \<Rightarrow> 'a list \<Rightarrow> error + 'a" where
  "py_min f xs = (case xs of [] \<Rightarrow> Inl ValueError | x # rest \<Rightarrow> Inr (min_from f x rest))"

definition lfu_choose_victim ::
    "(CacheKey \<times> int) list \<Rightarrow> cache_dict \<Rightarrow> error + (CacheKey option \<times> (CacheKey \<times> int) list)" where
  "lfu_choose_victim fc cache =
     (let fc1 = lfu_bump fc (map fst cache)
      in case py_min (\<lambda>k. case dict_get fc1 k of Some c \<Rightarrow> c | None \<Rightarrow> 0) (map fst cache) of
           Inl err \<Rightarrow> Inl err
         | Inr k \<Rightarrow> Inr (Some k, fc1))"

subsection \<open>HotBlockEvictor\<close>

text \<open>The set comprehension: one clock reading per resident entry, in cache order.\<close>

fun recently_accessed :: "env \<Rightarrow> real \<Rightarrow> cache_dict \<Rightarrow> nat \<Rightarrow> CacheKey list \<times> nat" where
  "recently_accessed e th [] now = ([], now)"
| "recently_accessed e th ((key, v) # rest) now =
     (let (keys, now1) = recently_accessed e th rest (Suc now)
      in (if fl_round e (time_time e now - access_time v) < th then key # keys else keys,
          now1))"

fun hot_bump :: "(CacheKey \<times> int) list \<Rightarrow> CacheKey list \<Rightarrow> (CacheKey \<times> int) list" where
  "hot_bump hb [] = hb"
| "hot_bump hb (key # keys) =
     (let hb1 = (if \<not> dict_in key hb then dict_set hb key 0 else hb);
          c = (case dict_get hb1 key of Some c \<Rightarrow> c | None \<Rightarrow> 0)
      in hot_bump (dict_set hb1 key (c + 1)) keys)"

fun hot_scan :: "cache_dict \<Rightarrow> (CacheKey \<times> int) list \<Rightarrow> CacheKey option \<times> int
    \<Rightarrow> CacheKey option \<times> int" where
  "hot_scan cache [] acc = acc"
| "hot_scan cache ((key, score) # rest) (victim, hottest_score) =
     hot_scan cache rest
       (if dict_in key cache \<and> score > hottest_score then (Some key, score)
        else (victim, hottest_score))"

text \<open>
  After the scan, \<open>if victim not in cache: del self.hot_blocks[victim]\<close>. \<open>None\<close> is never a
  key of either dictionary, so with no victim the test holds and the deletion raises.
\<close>

definition hot_choose_victim ::
    "env \<Rightarrow> real \<Rightarrow> (CacheKey \<times> int) list \<Rightarrow> cache_dict \<Rightarrow> nat
      \<Rightarrow> error + (CacheKey option \<times> (CacheKey \<times> int) list \<times> nat)" where
  "hot_choose_victim e th hb cache now =
     (let (recent, now1) = recently_accessed e th cache now;
          hb1 = hot_bump hb (set_order e recent);
          victim = fst (hot_scan cache hb1 (None, 0))
      in case victim of
           None \<Rightarrow> Inl KeyError
         | Some k \<Rightarrow>
             if \<not> dict_in k cache
             then (if dict_in k hb1 then Inr (Some k, dict_del hb1 k, now1) else Inl KeyError)
             else Inr (Some k, hb1, now1))"

subsection \<open>The two methods of a policy\<close>

fun choose_victim :: "env \<Rightarrow> evictor \<Rightarrow> cache_dict \<Rightarrow> nat
    \<Rightarrow> error + (CacheKey option \<times> evictor \<times> nat)" where
  "choose_victim e (LFUDADecayFactorEvictor ra m d) cache now =
     (let (victim, now1) = decay_choose_victim e ra d cache now
      in Inr (victim, LFUDADecayFactorEvictor ra m d, now1))"
| "choose_victim e (LFUDAEvictor fc la) cache now =
     (case lfuda_choose_victim e fc la cache now of
        Inl err \<Rightarrow> Inl err
      | Inr (victim, now1) \<Rightarrow> Inr (victim, LFUDAEvictor fc la, now1))"
| "choose_victim e LRUEvictor cache now = Inr (choose_oldest cache, LRUEvictor, now)"
| "choose_victim e (LFUEvictor fc) cache now =
     (case lfu_choose_victim fc cache of
        Inl err \<Rightarrow> Inl err
      | Inr (victim, fc1) \<Rightarrow> Inr (victim, LFUEvictor fc1, now))"
| "choose_victim e (HotBlockEvictor th hb) cache now =
     (case hot_choose_victim e th hb cache now of
        Inl err \<Rightarrow> Inl err
      | Inr (victim, hb1, now1) \<Rightarrow> Inr (victim, HotBlockEvictor th hb1, now1))"

fun update_internal_cache :: "env \<Rightarrow> evictor \<Rightarrow> cache_dict \<Rightarrow> CacheKey \<Rightarrow> nat
    \<Rightarrow> evictor \<times> nat" where
  "update_internal_cache e (LFUDADecayFactorEvictor ra m d) cache key now =
     (let (ra1, now1) = decay_update_internal_cache e ra m key now
      in (LFUDADecayFactorEvictor ra1 m d, now1))"
| "update_internal_cache e (LFUDAEvictor fc la) cache key now =
     (let ((fc1, la1), now1) = lfuda_update_internal_cache e fc la key now
      in (LFUDAEvictor fc1 la1, now1))"
| "update_internal_cache e LRUEvictor cache key now = (LRUEvictor, now)"
| "update_internal_cache e (LFUEvictor fc) cache key now = (LFUEvictor fc, now)"
| "update_internal_cache e (HotBlockEvictor th hb) cache key now = (HotBlockEvictor th hb, now)"

text \<open>
  The policy objects live in a heap, addressed by number, because a store holds a reference
  to its policy and several stores can hold the same one. The module creates five instances
  when it is imported.
\<close>

record world =
  evictors :: "nat \<Rightarrow> evictor"
  clock_pos :: nat

definition lFUDADecayFactorEvictor :: nat where "lFUDADecayFactorEvictor = 0"
definition lFUDAEvictor :: nat where "lFUDAEvictor = 1"
definition hot_block_evictor :: nat where "hot_block_evictor = 2"
definition lru_evictor :: nat where "lru_evictor = 3"
definition lfu_evictor :: nat where "lfu_evictor = 4"

definition module_evictors :: "nat \<Rightarrow> evictor" where
  "module_evictors =
     (\<lambda>_. LRUEvictor)
       (0 := LFUDADecayFactorEvictor [] 10 (1 / 2),
        1 := LFUDAEvictor [] [],
        2 := HotBlockEvictor 10 [],
        3 := LRUEvictor,
        4 := LFUEvictor [])"

definition module_world :: world where
  "module_world = \<lparr>evictors = module_evictors, clock_pos = 0\<rparr>"

section \<open>cache.py\<close>

datatype CacheResponse = CacheResponse (response_data: bytes) (is_hit: bool)

text \<open>
  The fields of a \<open>Cache\<close> that its methods read or write; \<open>frequency_count\<close> and
  \<open>dynamic_evictor\<close> are set by the constructor and never used. \<open>cache_size\<close> is the
  attribute \<open>size\<close>, \<open>evictor\<close> the address of the policy object.
\<close>

record Cache =
  max_size :: int
  cache :: cache_dict
  cache_size :: int
  evictor :: nat
  file_path :: string

text \<open>The constructor; an argument left out is \<open>None\<close> and takes its default.\<close>

definition Cache_init :: "string \<Rightarrow> int option \<Rightarrow> nat option \<Rightarrow> Cache" where
  "Cache_init path max_size_arg evictor_arg =
     \<lparr>max_size = (case max_size_arg of Some m \<Rightarrow> m | None \<Rightarrow> 10 * 1024),
      cache = [],
      cache_size = 0,
      evictor = (case evictor_arg of Some r \<Rightarrow> r | None \<Rightarrow> lFUDADecayFactorEvictor),
      file_path = path\<rparr>"

text \<open>
  \<open>open\<close>, \<open>seek\<close>, \<open>read\<close>: \<open>OSError\<close> when the file cannot be opened or the offset is
  negative; a read that reaches the end of the file returns the bytes there are, possibly none.
  Offsets are taken to fit the file offsets of the platform.
\<close>

definition read_from_file :: "env \<Rightarrow> int \<Rightarrow> BlockSize \<Rightarrow> string \<Rightarrow> error + bytes" where
  "read_from_file e off sz path =
     (case files e path of
        None \<Rightarrow> Inl OSError
      | Some content \<Rightarrow>
          if off < 0 then Inl OSError
          else Inr (take (BlockSize_value sz) (drop (nat off) content)))"

text \<open>
  \<open>current_offset += BlockSize.B8\<close>: \<open>BlockSize\<close> derives from \<open>Enum\<close>, not \<open>IntEnum\<close>,
  so its members take no part in arithmetic and the addition raises \<open>TypeError\<close>.
\<close>

definition int_add_BlockSize :: "int \<Rightarrow> BlockSize \<Rightarrow> error + int" where
  "int_add_BlockSize i b = Inl TypeError"

text \<open>The loop of \<open>check_and_retrieve_consecutive_blocks\<close>, \<open>n\<close> iterations to go.\<close>

fun consecutive_blocks_loop :: "nat \<Rightarrow> cache_dict \<Rightarrow> int \<Rightarrow> bytes list \<Rightarrow> error + bytes option" where
  "consecutive_blocks_loop 0 c current_offset consecutive_blocks =
     Inr (Some (concat consecutive_blocks))"
| "consecutive_blocks_loop (Suc n) c current_offset consecutive_blocks =
     (case dict_get c (CacheKey current_offset B8) of
        None \<Rightarrow> Inr None
      | Some v \<Rightarrow>
          (case int_add_BlockSize current_offset B8 of
             Inl err \<Rightarrow> Inl err
           | Inr next_offset \<Rightarrow>
               consecutive_blocks_loop n c next_offset (consecutive_blocks @ [data v])))"

definition check_and_retrieve_consecutive_blocks :: "Cache \<Rightarrow> int \<Rightarrow> error + bytes option" where
  "check_and_retrieve_consecutive_blocks c off = consecutive_blocks_loop 8 (cache c) off []"

definition evict :: "env \<Rightarrow> Cache \<Rightarrow> bytes \<Rightarrow> CacheKey \<Rightarrow> world \<Rightarrow> error + (Cache \<times> world)" where
  "evict e c dat key w =
     (if cache c \<noteq> [] then
        (let (ev1, now1) =
               update_internal_cache e (evictors w (evictor c)) (cache c) key (clock_pos w);
             w1 = \<lparr>evictors = (evictors w)(evictor c := ev1), clock_pos = now1\<rparr>
         in if cache_size c + int (length dat) > max_size c then
              (case choose_victim e ev1 (cache c) now1 of
                 Inl err \<Rightarrow> Inl err
               | Inr (key_to_evict, ev2, now2) \<Rightarrow>
                   (case key_to_evict of
                      None \<Rightarrow> Inl KeyError
                    | Some k \<Rightarrow>
                        (case dict_get (cache c) k of
                           None \<Rightarrow> Inl KeyError
                         | Some v \<Rightarrow>
                             Inr (c\<lparr>cache_size := cache_size c - int (length (data v)),
                                    cache := dict_del (cache c) k\<rparr>,
                                  \<lparr>evictors = (evictors w)(evictor c := ev2),
                                   clock_pos = now2\<rparr>))))
            else Inr (c, w1))
      else Inr (c, w))"

definition insert_entry :: "env \<Rightarrow> Cache \<Rightarrow> CacheKey \<Rightarrow> bytes \<Rightarrow> world \<Rightarrow> error + (Cache \<times> world)" where
  "insert_entry e c key dat w =
     (case evict e c dat key w of
        Inl err \<Rightarrow> Inl err
      | Inr (c1, w1) \<Rightarrow>
          Inr (c1\<lparr>cache_size := cache_size c1 + int (length dat),
                  cache := dict_set (cache c1) key
                             (CacheValue dat (time_time e (clock_pos w1)) 1)\<rparr>,
               w1\<lparr>clock_pos := Suc (clock_pos w1)\<rparr>))"

definition insert_and_respond ::
    "env \<Rightarrow> Cache \<Rightarrow> CacheKey \<Rightarrow> int \<Rightarrow> BlockSize \<Rightarrow> world
      \<Rightarrow> error + (CacheResponse \<times> Cache \<times> world)" where
  "insert_and_respond e c key off sz w =
     (case read_from_file e off sz (file_path c) of
        Inl err \<Rightarrow> Inl err
      | Inr dat \<Rightarrow>
          (case insert_entry e c key dat w of
             Inl err \<Rightarrow> Inl err
           | Inr (c1, w1) \<Rightarrow> Inr (CacheResponse dat False, c1, w1)))"

definition get :: "env \<Rightarrow> Cache \<Rightarrow> int \<Rightarrow> BlockSize \<Rightarrow> world
    \<Rightarrow> error + (CacheResponse \<times> Cache \<times> world)" where
  "get e c off sz w =
     (let key = CacheKey off sz
      in case dict_get (cache c) key of
           Some v \<Rightarrow>
             Inr (CacheResponse (data v) True,
                  c\<lparr>cache := dict_set (cache c) key
                               (CacheValue (data v) (time_time e (clock_pos w)) (hit_count v))\<rparr>,
                  w\<lparr>clock_pos := Suc (clock_pos w)\<rparr>)
         | None \<Rightarrow>
             if sz = B64 then
               (case check_and_retrieve_consecutive_blocks c off of
                  Inl err \<Rightarrow> Inl err
                | Inr maybe_data \<Rightarrow>
                    (case maybe_data of
                       Some dat \<Rightarrow>
                         if dat \<noteq> [] then Inr (CacheResponse dat True, c, w)
                         else insert_and_respond e c key off sz w
                     | None \<Rightarrow> insert_and_respond e c key off sz w))
             else insert_and_respond e c key off sz w)"

text \<open>A run of \<open>get\<close> calls on one store; an exception ends the run.\<close>

fun gets :: "env \<Rightarrow> Cache \<Rightarrow> (int \<times> BlockSize) list \<Rightarrow> world
    \<Rightarrow> error + (CacheResponse list \<times> Cache \<times> world)" where
  "gets e c [] w = Inr ([], c, w)"
| "gets e c ((off, sz) # rest) w =
     (case get e c off sz w of
        Inl err \<Rightarrow> Inl err
      | Inr (r, c1, w1) \<Rightarrow>
          (case gets e c1 rest w1 of
             Inl err \<Rightarrow> Inl err
           | Inr (rs, c2, w2) \<Rightarrow> Inr (r # rs, c2, w2)))"


section \<open>Observations and example runs\<close>

text \<open>The sum of the byte lengths of the resident entries.\<close>

definition total_bytes :: "cache_dict \<Rightarrow> int" where
  "total_bytes d = (\<Sum>(k, v)\<leftarrow>d. int (length (data v)))"

definition size_inv :: "Cache \<Rightarrow> bool" where
  "size_inv c = (cache_size c = total_bytes (cache c))"

text \<open>
  What a test sees of a run: the error, or for each call whether it was a hit and how many bytes
  it returned, then the resident keys with the lengths of their buffers, and the size counter.
\<close>

definition observe :: "error + (CacheResponse list \<times> Cache \<times> world)
    \<Rightarrow> error + ((bool \<times> nat) list \<times> (CacheKey \<times> nat) list \<times> int)" where
  "observe res =
     (case res of
        Inl err \<Rightarrow> Inl err
      | Inr (rs, c, w) \<Rightarrow>
          Inr (map (\<lambda>r. (is_hit r, length (response_data r))) rs,
               map (\<lambda>(k, v). (k, length (data v))) (cache c),
               cache_size c))"

text \<open>The state of the policy object of a store after a run.\<close>

definition policy_after :: "error + (CacheResponse list \<times> Cache \<times> world) \<Rightarrow> error + evictor" where
  "policy_after res =
     (case res of Inl err \<Rightarrow> Inl err | Inr (rs, c, w) \<Rightarrow> Inr (evictors w (evictor c)))"

text \<open>
  The environment of the example runs: the clock reads 1, 2, 3, ..., a set is iterated in the
  order its items were added, every path names a file with the given content, and float
  arithmetic is exact (as it is on the small dyadic numbers of these runs).
\<close>

definition example_env :: "bytes \<Rightarrow> env" where
  "example_env content =
     \<lparr>time_time = (\<lambda>n. real n + 1), set_order = (\<lambda>keys. keys), files = (\<lambda>_. Some content),
      fl_round = (\<lambda>x. x)\<rparr>"

text \<open>
  Every resident buffer is what \<open>read_from_file\<close> returns for its key.
\<close>

definition read_inv :: "env \<Rightarrow> Cache \<Rightarrow> bool" where
  "read_inv e c =
     (\<forall>(k, v) \<in> set (cache c). read_from_file e (offset k) (key_size k) (file_path c) = Inr (data v))"

text \<open>The order of scores: \<open>a\<close> is at most \<open>b\<close> when \<open>b < a\<close> fails.\<close>

definition ext_le :: "ext \<Rightarrow> ext \<Rightarrow> bool" where
  "ext_le a b = (\<not> ext_less b a)"

text \<open>
  The recency score in the words of the specification, for a queue \<open>q\<close> of timestamps from
  oldest to newest: \<open>1 / (2 * now - sum of q ! i * d ^ i)\<close>, 0 for an empty queue, and an eighth
  of that for a large key.
\<close>

definition recency_score :: "real \<Rightarrow> real \<Rightarrow> CacheKey \<Rightarrow> real list \<Rightarrow> real" where
  "recency_score d now key q =
     (let s = (if q = [] then 0 else 1 / (2 * now - (\<Sum>i<length q. q ! i * d ^ i)))
      in if key_size key = B64 then s / 8 else s)"

text \<open>
  The recency term and the combined score in the words of the specification: the term is 1
  when the elapsed time since the last recorded access is zero, 0 when no access is recorded,
  and the inverse of the elapsed time otherwise; the score of a large key is halved.
\<close>

definition claimed_recency_term :: "real \<Rightarrow> (CacheKey \<times> real) list \<Rightarrow> CacheKey \<Rightarrow> real" where
  "claimed_recency_term t la key =
     (case dict_get la key of
        None \<Rightarrow> 0
      | Some x \<Rightarrow> if t - x = 0 then 1 else 1 / (t - x))"

definition claimed_combined_score ::
    "real \<Rightarrow> (CacheKey \<times> real) list \<Rightarrow> CacheKey \<Rightarrow> int \<Rightarrow> real" where
  "claimed_combined_score t la key f =
     (if key_size key = B64 then (real_of_int f + claimed_recency_term t la key) / 2
      else real_of_int f + claimed_recency_term t la key)"

text \<open>
  An environment whose clock returns the given readings in turn, where every path names a
  file of 200 zero bytes and float arithmetic is exact.
\<close>

definition timed_env :: "real list \<Rightarrow> env" where
  "timed_env ts =
     \<lparr>time_time = (\<lambda>n. if n < length ts then ts ! n else real n),
      set_order = (\<lambda>keys. keys),
      files = (\<lambda>_. Some (replicate 200 0)),
      fl_round = (\<lambda>x. x)\<rparr>"

text \<open>
  A run of \<open>get\<close> calls of one process on two stores; each call names its store (\<open>True\<close> for
  the first). Both stores act on the same heap of policy objects and the same clock.
\<close>

fun gets_two :: "env \<Rightarrow> Cache \<Rightarrow> Cache \<Rightarrow> (bool \<times> int \<times> BlockSize) list \<Rightarrow> world
    \<Rightarrow> error + (Cache \<times> Cache \<times> world)" where
  "gets_two e a b [] w = Inr (a, b, w)"
| "gets_two e a b ((on_first, off, sz) # rest) w =
     (if on_first then
        (case get e a off sz w of
           Inl err \<Rightarrow> Inl err
         | Inr (r, a1, w1) \<Rightarrow> gets_two e a1 b rest w1)
      else
        (case get e b off sz w of
           Inl err \<Rightarrow> Inl err
         | Inr (r, b1, w1) \<Rightarrow> gets_two e a b1 rest w1))"

text \<open>
  What is seen of the first store after such a run, the resident keys with their last access
  times, and the state of the policy object of the first store.
\<close>

definition first_store :: "error + (Cache \<times> Cache \<times> world) \<Rightarrow> error + (CacheKey \<times> real) list" where
  "first_store res =
     (case res of
        Inl err \<Rightarrow> Inl err
      | Inr (a, b, w) \<Rightarrow> Inr (map (\<lambda>(k, v). (k, access_time v)) (cache a)))"

definition first_policy :: "error + (Cache \<times> Cache \<times> world) \<Rightarrow> error + evictor" where
  "first_policy res =
     (case res of Inl err \<Rightarrow> Inl err | Inr (a, b, w) \<Rightarrow> Inr (evictors w (evictor a)))"

text \<open>
  How many times one iteration of the first loop of \<open>LFUDAEvictor.choose_victim\<close> reads the
  clock, and the clock position at which the iteration of each key starts.
\<close>

definition lfuda_reads :: "env \<Rightarrow> real option \<Rightarrow> nat \<Rightarrow> nat" where
  "lfuda_reads e last_time now =
     (if fl_round e (time_time e now - (case last_time of Some t \<Rightarrow> t | None \<Rightarrow> 0)) = 0 then 1
      else (case last_time of None \<Rightarrow> 1 | Some t \<Rightarrow> if t = 0 then 1 else 2))"

fun lfuda_positions :: "env \<Rightarrow> (CacheKey \<times> real) list \<Rightarrow> (CacheKey \<times> int) list \<Rightarrow> nat
    \<Rightarrow> (CacheKey \<times> int \<times> nat) list" where
  "lfuda_positions e la [] now = []"
| "lfuda_positions e la ((key, v) # rest) now =
     (key, v, now) # lfuda_positions e la rest (now + lfuda_reads e (dict_get la key) now)"

text \<open>
  The combined score of a key with count \<open>f\<close> whose iteration starts at clock position \<open>n\<close>,
  written out: \<open>time_passed\<close> is the reading at \<open>n\<close> minus the last recorded access (0.0 if
  none); the recency term is 1 when \<open>time_passed\<close> is zero, else 0 when no access or the time
  0.0 is recorded, else the inverse of the reading at \<open>n + 1\<close> minus the last recorded access;
  the sum of count and term is divided by 8 for a key that is not small. Every float operation
  is rounded.
\<close>

definition combined_score_at ::
    "env \<Rightarrow> (CacheKey \<times> real) list \<Rightarrow> CacheKey \<Rightarrow> int \<Rightarrow> nat \<Rightarrow> real" where
  "combined_score_at e la key f n =
     (let last_time = dict_get la key;
          time_passed =
            fl_round e (time_time e n - (case last_time of Some t \<Rightarrow> t | None \<Rightarrow> 0));
          combined =
            (if time_passed = 0 then real_of_int f + 1
             else (case last_time of
                     None \<Rightarrow> real_of_int f
                   | Some t \<Rightarrow>
                       if t = 0 then real_of_int f
                       else fl_round e (fl_round e (real_of_int f)
                              + fl_round e (1 / fl_round e (time_time e (Suc n) - t)))))
      in if key_size key = B8 then combined else fl_round e (combined / 8))"

text \<open>
  What \<open>check_and_retrieve_consecutive_blocks\<close> comes to: the first iteration either finds
  no small block at the offset, or finds one and then fails to advance the offset.
\<close>

lemma check_and_retrieve_consecutive_blocks_eq:
  "check_and_retrieve_consecutive_blocks c off =
     (case dict_get (cache c) (CacheKey off B8) of None \<Rightarrow> Inr None | Some v \<Rightarrow> Inl TypeError)"
  by (simp add: check_and_retrieve_consecutive_blocks_def int_add_BlockSize_def eval_nat_numeral
           split: option.splits)

lemmas run_defs =
  example_env_def Cache_init_def module_world_def module_evictors_def
  lFUDADecayFactorEvictor_def lFUDAEvictor_def hot_block_evictor_def lru_evictor_def
  lfu_evictor_def get_def insert_and_respond_def insert_entry_def evict_def read_from_file_def
  check_and_retrieve_consecutive_blocks_eq
  decay_update_internal_cache_def decay_choose_victim_def decay_score_def decayed_sum_def
  fl_sum_def np_recip_def deque_append_def dict_in_def choose_oldest_def
  lfuda_update_internal_cache_def lfuda_choose_victim_def lfuda_recency_def py_truediv_def
  lfuda_stored_score_def lfu_choose_victim_def py_min_def hot_choose_victim_def Let_def

section \<open>Dictionaries\<close>

lemma dict_get_None_iff: "dict_get d k = None \<longleftrightarrow> k \<notin> fst ` set d"
  by (induction d) (auto split: if_splits)

lemma dict_get_Some_mem: "dict_get d k = Some v \<Longrightarrow> (k, v) \<in> set d"
  by (induction d) (auto split: if_splits)

lemma dict_get_set: "dict_get (dict_set d k v) k' = (if k' = k then Some v else dict_get d k')"
  by (induction d) auto

lemma keys_dict_set: "fst ` set (dict_set d k v) = Set.insert k (fst ` set d)"
  by (induction d) (force split: if_splits)+

lemma keys_dict_del: "fst ` set (dict_del d k) \<subseteq> fst ` set d"
  by (induction d) (force split: if_splits)+

lemma distinct_dict_set: "distinct (map fst d) \<Longrightarrow> distinct (map fst (dict_set d k v))"
proof (induction d)
  case Nil
  then show ?case by simp
next
  case (Cons p d)
  obtain k' v' where p: "p = (k', v')" by (cases p)
  from Cons p show ?case
    using keys_dict_set [of d k v] by auto
qed

lemma distinct_dict_del: "distinct (map fst d) \<Longrightarrow> distinct (map fst (dict_del d k))"
proof (induction d)
  case Nil
  then show ?case by simp
next
  case (Cons p d)
  obtain k' v' where p: "p = (k', v')" by (cases p)
  from Cons p show ?case
    using keys_dict_del [of d k] by auto
qed

lemma dict_get_del:
  "distinct (map fst d) \<Longrightarrow> dict_get (dict_del d k) k' = (if k' = k then None else dict_get d k')"
  by (induction d) (fastforce simp: dict_get_None_iff split: if_splits)+

lemma total_bytes_set_new:
  "dict_get d k = None \<Longrightarrow> total_bytes (dict_set d k v) = total_bytes d + int (length (data v))"
  by (induction d) (auto simp: total_bytes_def split: if_splits)

lemma total_bytes_set_old:
  "dict_get d k = Some v0 \<Longrightarrow>
   total_bytes (dict_set d k v) = total_bytes d - int (length (data v0)) + int (length (data v))"
  by (induction d) (auto simp: total_bytes_def split: if_splits)

lemma total_bytes_del:
  "dict_get d k = Some v0 \<Longrightarrow> total_bytes (dict_del d k) = total_bytes d - int (length (data v0))"
  by (induction d) (auto simp: total_bytes_def split: if_splits)


section \<open>The size counter\<close>

lemma evict_size_inv:
  "size_inv c \<Longrightarrow> evict e c dat key w = Inr (c1, w1) \<Longrightarrow> size_inv c1"
  by (auto simp: evict_def size_inv_def Let_def total_bytes_del
           split: if_splits prod.splits sum.splits option.splits)

lemma set_dict_del: "set (dict_del d k) \<subseteq> set d"
  by (induction d) (auto split: if_splits)

lemma evict_entries:
  "evict e c dat key w = Inr (c1, w1) \<Longrightarrow> set (cache c1) \<subseteq> set (cache c)"
  by (auto simp: evict_def Let_def dest: subsetD [OF set_dict_del]
           split: if_splits prod.splits sum.splits option.splits)

lemma evict_keys:
  "evict e c dat key w = Inr (c1, w1) \<Longrightarrow> fst ` set (cache c1) \<subseteq> fst ` set (cache c)"
  using evict_entries [of e c dat key w c1 w1] by (rule_tac image_mono) simp

lemma insert_entry_size_inv:
  assumes "size_inv c" "dict_get (cache c) key = None" "insert_entry e c key dat w = Inr (c1, w1)"
  shows "size_inv c1"
proof -
  from assms(3) obtain c0 w0 where ev: "evict e c dat key w = Inr (c0, w0)"
    and c1: "c1 = c0\<lparr>cache_size := cache_size c0 + int (length dat),
                      cache := dict_set (cache c0) key (CacheValue dat (time_time e (clock_pos w0)) 1)\<rparr>"
    by (auto simp: insert_entry_def split: sum.splits)
  have inv0: "size_inv c0" using evict_size_inv [OF assms(1) ev] .
  have "key \<notin> fst ` set (cache c0)"
    using evict_keys [OF ev] assms(2) by (auto simp: dict_get_None_iff)
  then have "dict_get (cache c0) key = None" by (simp add: dict_get_None_iff)
  with inv0 c1 show ?thesis by (simp add: size_inv_def total_bytes_set_new)
qed

lemma get_size_inv:
  assumes "size_inv c" "get e c off sz w = Inr (r, c1, w1)"
  shows "size_inv c1"
proof (cases "dict_get (cache c) (CacheKey off sz)")
  case (Some v)
  with assms show ?thesis
    by (auto simp: get_def Let_def size_inv_def total_bytes_set_old)
next
  case None
  have ins: "insert_and_respond e c (CacheKey off sz) off sz w = Inr (r, c1, w1) \<Longrightarrow> size_inv c1"
    using insert_entry_size_inv [OF assms(1) None]
    by (auto simp: insert_and_respond_def split: sum.splits)
  from assms None ins show ?thesis
    by (auto simp: get_def Let_def split: if_splits sum.splits option.splits)
qed

lemma gets_size_inv:
  "size_inv c \<Longrightarrow> gets e c reqs w = Inr (rs, c1, w1) \<Longrightarrow> size_inv c1"
proof (induction reqs arbitrary: c w rs)
  case Nil
  then show ?case by simp
next
  case (Cons rq reqs)
  obtain off sz where rq: "rq = (off, sz)" by (cases rq)
  from Cons.prems(2) rq obtain r c0 w0 rs0 where
    g: "get e c off sz w = Inr (r, c0, w0)" and gs: "gets e c0 reqs w0 = Inr (rs0, c1, w1)"
    by (auto split: sum.splits)
  from Cons.IH [OF get_size_inv [OF Cons.prems(1) g] gs] show ?case .
qed

lemma gets_take:
  "gets e c reqs w = Inr (rs, c1, w1) \<Longrightarrow> \<exists>c2 w2. gets e c (take n reqs) w = Inr (take n rs, c2, w2)"
proof (induction reqs arbitrary: c w rs n)
  case Nil
  then show ?case by auto
next
  case (Cons rq reqs)
  obtain off sz where rq: "rq = (off, sz)" by (cases rq)
  from Cons.prems rq obtain r c0 w0 rs0 where
    g: "get e c off sz w = Inr (r, c0, w0)" and gs: "gets e c0 reqs w0 = Inr (rs0, c1, w1)"
    and rs: "rs = r # rs0"
    by (auto split: sum.splits)
  show ?case
  proof (cases n)
    case 0
    then show ?thesis by simp
  next
    case (Suc m)
    from Cons.IH [OF gs, of m] obtain c2 w2 where "gets e c0 (take m reqs) w0 = Inr (take m rs0, c2, w2)"
      by blast
    with g rq rs Suc show ?thesis by simp
  qed
qed


text \<open>
  C1. For every backing store, every policy and every run of \<open>get\<close> calls on a new store
  that all return normally, after each call (after the first \<open>n\<close> calls, for every \<open>n\<close>)
  the size counter equals the sum of the lengths of the buffers of the resident entries.
\<close>

theorem size_invariant:
  assumes "gets e (Cache_init path m ev) reqs w = Inr (rs, c1, w1)"
  shows "\<exists>c2 w2. gets e (Cache_init path m ev) (take n reqs) w = Inr (take n rs, c2, w2) \<and>
           cache_size c2 = (\<Sum>(k, v)\<leftarrow>cache c2. int (length (data v)))"
proof -
  from gets_take [OF assms, of n] obtain c2 w2 where
    g: "gets e (Cache_init path m ev) (take n reqs) w = Inr (take n rs, c2, w2)" by blast
  have "size_inv (Cache_init path m ev)" by (simp add: size_inv_def Cache_init_def total_bytes_def)
  from gets_size_inv [OF this g] g show ?thesis by (auto simp: size_inv_def total_bytes_def)
qed

theorem size_invariant_witness:
  "(\<exists>rs c1 w1. gets (example_env (replicate 200 0)) (Cache_init ''data.bin'' (Some 64) None)
       [(0, B8), (8, B8), (100, B64)] module_world = Inr (rs, c1, w1)) \<and>
   (\<exists>rs c2 w2. gets (example_env (replicate 200 0)) (Cache_init ''data.bin'' (Some 64) None)
       (take 2 [(0, B8), (8, B8), (100, B64)]) module_world = Inr (rs, c2, w2) \<and>
       cache_size c2 = (\<Sum>(k, v)\<leftarrow>cache c2. int (length (data v))))"
proof -
  have run: "\<exists>rs c1 w1. gets (example_env (replicate 200 0)) (Cache_init ''data.bin'' (Some 64) None)
       [(0, B8), (8, B8), (100, B64)] module_world = Inr (rs, c1, w1)"
    by (simp add: run_defs)
  then obtain rs c1 w1 where "gets (example_env (replicate 200 0))
       (Cache_init ''data.bin'' (Some 64) None) [(0, B8), (8, B8), (100, B64)] module_world
       = Inr (rs, c1, w1)" by blast
  from size_invariant [OF this, of 2] run show ?thesis by blast
qed


section \<open>The steps of a call\<close>


lemma get_hit_or_miss:
  assumes "get e c off sz w = Inr (r, c1, w1)"
  shows "(\<exists>v. dict_get (cache c) (CacheKey off sz) = Some v \<and> r = CacheResponse (data v) True \<and>
            c1 = c\<lparr>cache := dict_set (cache c) (CacheKey off sz)
                               (CacheValue (data v) (time_time e (clock_pos w)) (hit_count v))\<rparr> \<and>
            w1 = w\<lparr>clock_pos := Suc (clock_pos w)\<rparr>) \<or>
         (dict_get (cache c) (CacheKey off sz) = None \<and>
            (\<exists>dat. read_from_file e off sz (file_path c) = Inr dat \<and> r = CacheResponse dat False \<and>
               insert_entry e c (CacheKey off sz) dat w = Inr (c1, w1)))"
proof (cases "dict_get (cache c) (CacheKey off sz)")
  case (Some v)
  with assms show ?thesis by (auto simp: get_def Let_def)
next
  case None
  with assms have "insert_and_respond e c (CacheKey off sz) off sz w = Inr (r, c1, w1)"
    by (auto simp: get_def Let_def check_and_retrieve_consecutive_blocks_eq
             split: if_splits sum.splits option.splits)
  with None show ?thesis
    by (auto simp: insert_and_respond_def split: sum.splits)
qed


lemma insert_entry_Inr:
  assumes "insert_entry e c key dat w = Inr (c1, w1)"
  shows "\<exists>c0 w0. evict e c dat key w = Inr (c0, w0) \<and>
           c1 = c0\<lparr>cache_size := cache_size c0 + int (length dat),
                   cache := dict_set (cache c0) key (CacheValue dat (time_time e (clock_pos w0)) 1)\<rparr> \<and>
           w1 = w0\<lparr>clock_pos := Suc (clock_pos w0)\<rparr>"
  using assms by (auto simp: insert_entry_def split: sum.splits)


section \<open>Capacity\<close>





section \<open>Coalescing\<close>

text \<open>
  C3 fails on the code. With the eight small blocks at offsets 0, 8, ..., 56 resident and the
  large key absent, \<open>get(0, large)\<close> raises \<open>TypeError\<close>: the scan finds the first block and
  then adds an \<open>Enum\<close> member to the offset.
\<close>

theorem coalescing_raises:
  "observe (gets (example_env (replicate 128 0)) (Cache_init ''data.bin'' None None)
      [(0, B8), (8, B8), (16, B8), (24, B8), (32, B8), (40, B8), (48, B8), (56, B8)] module_world)
     = Inr (replicate 8 (False, 8),
            [(CacheKey 0 B8, 8), (CacheKey 8 B8, 8), (CacheKey 16 B8, 8), (CacheKey 24 B8, 8),
             (CacheKey 32 B8, 8), (CacheKey 40 B8, 8), (CacheKey 48 B8, 8), (CacheKey 56 B8, 8)],
            64) \<and>
   observe (gets (example_env (replicate 128 0)) (Cache_init ''data.bin'' None None)
      [(0, B8), (8, B8), (16, B8), (24, B8), (32, B8), (40, B8), (48, B8), (56, B8), (0, B64)]
      module_world)
     = Inl TypeError"
  by (simp add: run_defs observe_def eval_nat_numeral)

section \<open>No victim\<close>

text \<open>
  C4 fails on the code. With \<open>max_size = 8\<close> and one entry resident, the second miss is over
  capacity, the policy tracks no resident key and returns \<open>None\<close>, and \<open>get\<close> raises
  \<open>KeyError\<close> on \<open>self.cache[None]\<close> instead of inserting.
\<close>

theorem none_victim_raises:
  "observe (gets (example_env (replicate 200 0)) (Cache_init ''data.bin'' (Some 8) None)
      [(0, B8)] module_world)
     = Inr ([(False, 8)], [(CacheKey 0 B8, 8)], 8) \<and>
   policy_after (gets (example_env (replicate 200 0)) (Cache_init ''data.bin'' (Some 8) None)
      [(0, B8)] module_world)
     = Inr (LFUDADecayFactorEvictor [] 10 (1 / 2)) \<and>
   choose_victim (example_env (replicate 200 0))
      (LFUDADecayFactorEvictor [(CacheKey 8 B8, [2])] 10 (1 / 2))
      [(CacheKey 0 B8, CacheValue (replicate 8 0) 1 1)] 2
     = Inr (None, LFUDADecayFactorEvictor [(CacheKey 8 B8, [2])] 10 (1 / 2), 3) \<and>
   observe (gets (example_env (replicate 200 0)) (Cache_init ''data.bin'' (Some 8) None)
      [(0, B8), (8, B8)] module_world)
     = Inl KeyError"
  by (simp add: run_defs observe_def policy_after_def)



section \<open>The access-recording hook\<close>

lemma dict_set_twice: "dict_set (dict_set d k v) k v' = dict_set d k v'"
  by (induction d) auto









section \<open>Resident buffers\<close>

lemma set_dict_set: "set (dict_set d k v) \<subseteq> Set.insert (k, v) (set d)"
  by (induction d) (auto split: if_splits)

lemma evict_file_path: "evict e c dat key w = Inr (c0, w0) \<Longrightarrow> file_path c0 = file_path c"
  by (auto simp: evict_def Let_def split: if_splits prod.splits sum.splits option.splits)

lemma get_read_inv:
  assumes "read_inv e c" "get e c off sz w = Inr (r, c1, w1)"
  shows "read_inv e c1 \<and> file_path c1 = file_path c"
proof -
  from get_hit_or_miss [OF assms(2)] consider
    (hit) v where "dict_get (cache c) (CacheKey off sz) = Some v"
      "c1 = c\<lparr>cache := dict_set (cache c) (CacheKey off sz)
                               (CacheValue (data v) (time_time e (clock_pos w)) (hit_count v))\<rparr>" |
    (miss) dat where "read_from_file e off sz (file_path c) = Inr dat"
      "insert_entry e c (CacheKey off sz) dat w = Inr (c1, w1)"
    by blast
  then show ?thesis
  proof cases
    case hit
    from hit(1) have mem: "(CacheKey off sz, v) \<in> set (cache c)" by (rule dict_get_Some_mem)
    with assms(1) have rd: "read_from_file e off sz (file_path c) = Inr (data v)"
      by (auto simp: read_inv_def)
    have "\<And>k' v'. (k', v') \<in> set (cache c1) \<Longrightarrow>
            read_from_file e (offset k') (key_size k') (file_path c1) = Inr (data v')"
    proof -
      fix k' v' assume "(k', v') \<in> set (cache c1)"
      with hit(2) set_dict_set [of "cache c" "CacheKey off sz"
            "CacheValue (data v) (time_time e (clock_pos w)) (hit_count v)"]
      have "(k', v') = (CacheKey off sz, CacheValue (data v) (time_time e (clock_pos w)) (hit_count v))
            \<or> (k', v') \<in> set (cache c)" by auto
      with rd assms(1) hit(2) show "read_from_file e (offset k') (key_size k') (file_path c1) = Inr (data v')"
        by (auto simp: read_inv_def)
    qed
    with hit(2) show ?thesis by (auto simp: read_inv_def)
  next
    case miss
    from insert_entry_Inr [OF miss(2)] obtain c0 w0 where
      ev: "evict e c dat (CacheKey off sz) w = Inr (c0, w0)" and
      c1: "c1 = c0\<lparr>cache_size := cache_size c0 + int (length dat),
                   cache := dict_set (cache c0) (CacheKey off sz)
                              (CacheValue dat (time_time e (clock_pos w0)) 1)\<rparr>"
      by blast
    have fp: "file_path c0 = file_path c" by (rule evict_file_path [OF ev])
    have "\<And>k' v'. (k', v') \<in> set (cache c1) \<Longrightarrow>
            read_from_file e (offset k') (key_size k') (file_path c1) = Inr (data v')"
    proof -
      fix k' v' assume "(k', v') \<in> set (cache c1)"
      with c1 set_dict_set [of "cache c0" "CacheKey off sz" "CacheValue dat (time_time e (clock_pos w0)) 1"]
      have "(k', v') = (CacheKey off sz, CacheValue dat (time_time e (clock_pos w0)) 1)
            \<or> (k', v') \<in> set (cache c0)" by auto
      with evict_entries [OF ev] have "(k', v') = (CacheKey off sz, CacheValue dat (time_time e (clock_pos w0)) 1)
            \<or> (k', v') \<in> set (cache c)" by auto
      with miss(1) assms(1) c1 fp show "read_from_file e (offset k') (key_size k') (file_path c1) = Inr (data v')"
        by (auto simp: read_inv_def)
    qed
    with c1 fp show ?thesis by (auto simp: read_inv_def)
  qed
qed

lemma gets_read_inv:
  "read_inv e c \<Longrightarrow> gets e c reqs w = Inr (rs, c1, w1) \<Longrightarrow> read_inv e c1 \<and> file_path c1 = file_path c"
proof (induction reqs arbitrary: c w rs)
  case Nil
  then show ?case by simp
next
  case (Cons rq reqs)
  obtain off sz where rq: "rq = (off, sz)" by (cases rq)
  from Cons.prems(2) rq obtain r c0 w0 rs0 where
    g: "get e c off sz w = Inr (r, c0, w0)" and gs: "gets e c0 reqs w0 = Inr (rs0, c1, w1)"
    by (auto split: sum.splits)
  from get_read_inv [OF Cons.prems(1) g] have "read_inv e c0" "file_path c0 = file_path c" by auto
  with Cons.IH [OF _ gs] show ?case by simp
qed

lemma read_from_file_Inr:
  "read_from_file e off sz path = Inr dat \<Longrightarrow>
   \<exists>content. files e path = Some content \<and> 0 \<le> off \<and>
     dat = take (BlockSize_value sz) (drop (nat off) content)"
  by (auto simp: read_from_file_def split: option.splits if_splits)

text \<open>
  C6, as amended. Nothing rejects a short read. After a run of \<open>get\<close> calls on a new store
  that all return normally, the buffer of every resident entry is the slice of the backing file
  that starts at the offset of its key and has the byte size of its granularity, cut at the end
  of the file: its length is the smaller of the granularity's byte size and the number of
  bytes the file has from the offset on, so it equals the byte size exactly when the file
  holds that many bytes there.
\<close>

theorem resident_buffers:
  assumes "gets e (Cache_init path m ev) reqs w = Inr (rs, c1, w1)"
    and "(k, v) \<in> set (cache c1)"
  shows "\<exists>content. files e path = Some content \<and> 0 \<le> offset k \<and>
           data v = take (BlockSize_value (key_size k)) (drop (nat (offset k)) content) \<and>
           length (data v) = min (BlockSize_value (key_size k)) (length content - nat (offset k))"
proof -
  have "read_inv e (Cache_init path m ev)" by (simp add: read_inv_def Cache_init_def)
  from gets_read_inv [OF this assms(1)] have inv: "read_inv e c1" and fp: "file_path c1 = path"
    by (simp_all add: Cache_init_def)
  from inv assms(2) fp have "read_from_file e (offset k) (key_size k) path = Inr (data v)"
    by (auto simp: read_inv_def)
  from read_from_file_Inr [OF this] show ?thesis by auto
qed

text \<open>
  C6 as stated fails. On a file of four bytes, \<open>get(0, small)\<close> returns normally and leaves
  a buffer of four bytes resident under a key whose granularity is eight bytes.
\<close>

theorem short_read_counterexample:
  "observe (gets (example_env [1, 2, 3, 4]) (Cache_init ''data.bin'' None None) [(0, B8)] module_world)
     = Inr ([(False, 4)], [(CacheKey 0 B8, 4)], 4) \<and> BlockSize_value (key_size (CacheKey 0 B8)) = 8"
  by (simp add: run_defs observe_def)

theorem resident_buffers_witness:
  "\<exists>rs c1 w1 v. gets (example_env [1, 2, 3, 4]) (Cache_init ''data.bin'' None None) [(0, B8)]
       module_world = Inr (rs, c1, w1) \<and>
     (CacheKey 0 B8, v) \<in> set (cache c1) \<and> data v = [1, 2, 3, 4] \<and> length (data v) = 4"
proof -
  have "\<exists>rs c1 w1 v. gets (example_env [1, 2, 3, 4]) (Cache_init ''data.bin'' None None) [(0, B8)]
       module_world = Inr (rs, c1, w1) \<and> (CacheKey 0 B8, v) \<in> set (cache c1)"
    by (simp add: run_defs)
  then obtain rs c1 w1 v where
    g: "gets (example_env [1, 2, 3, 4]) (Cache_init ''data.bin'' None None) [(0, B8)]
       module_world = Inr (rs, c1, w1)" and mem: "(CacheKey 0 B8, v) \<in> set (cache c1)"
    by blast
  from resident_buffers [OF g mem] have "data v = [1, 2, 3, 4] \<and> length (data v) = 4"
    by (simp add: example_env_def)
  with g mem show ?thesis by blast
qed

section \<open>Selection of the least score\<close>

lemma ext_le_refl: "ext_le a a"
  by (cases a) (simp_all add: ext_le_def)

lemma ext_le_trans: "ext_le a b \<Longrightarrow> ext_le b c \<Longrightarrow> ext_le a c"
  by (cases a; cases b; cases c) (simp_all add: ext_le_def)

lemma ext_less_imp_le: "ext_less a b \<Longrightarrow> ext_le a b"
  by (cases a; cases b) (simp_all add: ext_le_def)

lemma ext_le_PInf: "ext_le PInf s \<longleftrightarrow> s = PInf"
  by (cases s) (simp_all add: ext_le_def)

lemma min_scan_le:
  "min_scan ok xs (v0, m0) = (v, m) \<Longrightarrow> ext_le m m0 \<and> (\<forall>(k, s) \<in> set xs. ok k \<longrightarrow> ext_le m s)"
proof (induction xs arbitrary: v0 m0)
  case Nil
  then show ?case by (simp add: ext_le_refl)
next
  case (Cons p xs)
  obtain k s where p: "p = (k, s)" by (cases p)
  show ?case
  proof (cases "ok k \<and> ext_less s m0")
    case True
    with Cons.prems p have "min_scan ok xs (Some k, s) = (v, m)" by simp
    from Cons.IH [OF this] have a: "ext_le m s" and b: "\<forall>(k, s) \<in> set xs. ok k \<longrightarrow> ext_le m s"
      by auto
    from True have "ext_le s m0" by (simp add: ext_less_imp_le)
    with a have "ext_le m m0" by (rule ext_le_trans)
    with a b p show ?thesis by auto
  next
    case False
    with Cons.prems p have "min_scan ok xs (v0, m0) = (v, m)" by auto
    from Cons.IH [OF this] have a: "ext_le m m0" and b: "\<forall>(k, s) \<in> set xs. ok k \<longrightarrow> ext_le m s"
      by auto
    have "ok k \<Longrightarrow> ext_le m s"
    proof -
      assume "ok k"
      with False have "ext_le m0 s" by (simp add: ext_le_def)
      with a show "ext_le m s" by (rule ext_le_trans)
    qed
    with a b p show ?thesis by auto
  qed
qed

lemma min_scan_victim:
  "min_scan ok xs (v0, m0) = (v, m) \<Longrightarrow>
   (v = v0 \<and> m = m0) \<or> (\<exists>k. v = Some k \<and> ok k \<and> (k, m) \<in> set xs)"
proof (induction xs arbitrary: v0 m0)
  case Nil
  then show ?case by simp
next
  case (Cons p xs)
  obtain k s where p: "p = (k, s)" by (cases p)
  show ?case
  proof (cases "ok k \<and> ext_less s m0")
    case True
    with Cons.prems p have "min_scan ok xs (Some k, s) = (v, m)" by simp
    from Cons.IH [OF this] True p show ?thesis by auto
  next
    case False
    with Cons.prems p have "min_scan ok xs (v0, m0) = (v, m)" by auto
    from Cons.IH [OF this] p show ?thesis by auto
  qed
qed

text \<open>The outcome of a scan that starts with no victim and an infinite minimum.\<close>

lemma min_scan_result:
  assumes "fst (min_scan ok xs (None, PInf)) = v"
  shows "case v of
           Some k \<Rightarrow> ok k \<and> (\<exists>s. (k, s) \<in> set xs \<and> (\<forall>(k', s') \<in> set xs. ok k' \<longrightarrow> ext_le s s'))
         | None \<Rightarrow> (\<forall>(k', s') \<in> set xs. ok k' \<longrightarrow> s' = PInf)"
proof -
  obtain m where r: "min_scan ok xs (None, PInf) = (v, m)"
    using assms by (cases "min_scan ok xs (None, PInf)") auto
  note le = min_scan_le [OF r, THEN conjunct2]
  show ?thesis
  proof (cases v)
    case None
    with min_scan_victim [OF r] have "m = PInf" by auto
    with le None show ?thesis by (auto simp: ext_le_PInf)
  next
    case (Some k)
    with min_scan_victim [OF r] have "ok k" "(k, m) \<in> set xs" by auto
    with le Some show ?thesis by auto
  qed
qed

section \<open>Stores that share the default policy\<close>

text \<open>
  C10. Two stores constructed without an evictor argument hold the same policy object, the
  module's decayed-recency instance. A first store with room for three small blocks reads
  offsets 0, 8, 16 and 24 at times 1 to 8. When nothing else runs, the fourth read evicts the
  block at offset 8. When between the third and the fourth read a second store reads offsets
  100 and 8, its insertion of offset 8 appends a timestamp to the shared queue of that key,
  and the fourth read of the first store, made at the same times as before, evicts the block
  at offset 16 instead.
\<close>

theorem shared_default_policy:
  "evictor (Cache_init path1 m1 None) = evictor (Cache_init path2 m2 None) \<and>
   evictor (Cache_init path1 m1 None) = lFUDADecayFactorEvictor \<and>
   first_store (gets_two (timed_env [1, 2, 3, 4, 5, 6, 7, 8])
      (Cache_init ''a.bin'' (Some 24) None) (Cache_init ''b.bin'' None None)
      [(True, 0, B8), (True, 8, B8), (True, 16, B8), (True, 24, B8)] module_world)
     = Inr [(CacheKey 0 B8, 1), (CacheKey 16 B8, 5), (CacheKey 24 B8, 8)] \<and>
   first_policy (gets_two (timed_env [1, 2, 3, 4, 5, 6, 7, 8])
      (Cache_init ''a.bin'' (Some 24) None) (Cache_init ''b.bin'' None None)
      [(True, 0, B8), (True, 8, B8), (True, 16, B8), (True, 24, B8)] module_world)
     = Inr (LFUDADecayFactorEvictor
              [(CacheKey 8 B8, [2]), (CacheKey 16 B8, [4]), (CacheKey 24 B8, [6])] 10 (1 / 2)) \<and>
   first_store (gets_two (timed_env [1, 2, 3, 4, 5, 21 / 4, 11 / 2, 23 / 4, 6, 7, 8])
      (Cache_init ''a.bin'' (Some 24) None) (Cache_init ''b.bin'' None None)
      [(True, 0, B8), (True, 8, B8), (True, 16, B8), (False, 100, B8), (False, 8, B8),
       (True, 24, B8)] module_world)
     = Inr [(CacheKey 0 B8, 1), (CacheKey 8 B8, 3), (CacheKey 24 B8, 8)] \<and>
   first_policy (gets_two (timed_env [1, 2, 3, 4, 5, 21 / 4, 11 / 2, 23 / 4, 6, 7, 8])
      (Cache_init ''a.bin'' (Some 24) None) (Cache_init ''b.bin'' None None)
      [(True, 0, B8), (True, 8, B8), (True, 16, B8), (False, 100, B8), (False, 8, B8),
       (True, 24, B8)] module_world)
     = Inr (LFUDADecayFactorEvictor
              [(CacheKey 8 B8, [2, 11 / 2]), (CacheKey 16 B8, [4]), (CacheKey 24 B8, [6])] 10 (1 / 2))"
  by (simp add: timed_env_def first_store_def first_policy_def run_defs)

section \<open>The mapping stays a dictionary\<close>

text \<open>The keys of the mapping stay distinct, so the association list models a \<open>dict\<close>.\<close>

lemma evict_distinct:
  "distinct (map fst (cache c)) \<Longrightarrow> evict e c dat key w = Inr (c0, w0) \<Longrightarrow>
   distinct (map fst (cache c0))"
  by (auto simp: evict_def Let_def distinct_dict_del
           split: if_splits prod.splits sum.splits option.splits)

lemma get_distinct:
  assumes "distinct (map fst (cache c))" "get e c off sz w = Inr (r, c1, w1)"
  shows "distinct (map fst (cache c1))"
proof -
  from get_hit_or_miss [OF assms(2)] consider
    (hit) v where
      "c1 = c\<lparr>cache := dict_set (cache c) (CacheKey off sz)
                               (CacheValue (data v) (time_time e (clock_pos w)) (hit_count v))\<rparr>" |
    (miss) dat where "insert_entry e c (CacheKey off sz) dat w = Inr (c1, w1)"
    by blast
  then show ?thesis
  proof cases
    case hit
    with assms(1) show ?thesis by (simp add: distinct_dict_set)
  next
    case miss
    from insert_entry_Inr [OF miss] obtain c0 w0 where
      ev: "evict e c dat (CacheKey off sz) w = Inr (c0, w0)" and
      c1: "cache c1 = dict_set (cache c0) (CacheKey off sz)
                        (CacheValue dat (time_time e (clock_pos w0)) 1)"
      by auto
    from evict_distinct [OF assms(1) ev] c1 show ?thesis by (simp add: distinct_dict_set)
  qed
qed

section \<open>The decayed-recency policy\<close>

lemma zip_index: "zip q [0..<length q] = map (\<lambda>i. (q ! i, i)) [0..<length q]"
  by (rule nth_equalityI) simp_all

lemma foldl_plus: "foldl (\<lambda>acc x. acc + x) a xs = a + sum_list xs" for a :: real
  by (induction xs arbitrary: a) simp_all

lemma decayed_sum_exact:
  assumes "\<forall>x. fl_round e x = x"
  shows "decayed_sum e d q = (\<Sum>i<length q. q ! i * d ^ i)"
  using assms
  by (simp add: decayed_sum_def fl_sum_def foldl_plus zip_index comp_def
        interv_sum_list_conv_sum_set_nat atLeast0LessThan)

lemma decay_score_exact:
  assumes "\<forall>x. fl_round e x = x"
  shows "decay_score e d t k q =
     (if q \<noteq> [] \<and> 2 * t - (\<Sum>i<length q. q ! i * d ^ i) = 0 then PInf
      else Fin (recency_score d t k q))"
  using assms
  by (simp add: decay_score_def recency_score_def np_recip_def decayed_sum_exact Let_def
        mult.commute)

lemma decay_choose_victim_result:
  assumes "decay_choose_victim e ra d ch now = (v, now1)"
  shows "now1 = Suc now \<and>
     (case v of
        Some k \<Rightarrow> dict_in k ch \<and>
          (\<exists>q. (k, q) \<in> set ra \<and>
             (\<forall>(k', q') \<in> set ra. dict_in k' ch \<longrightarrow>
                ext_le (decay_score e d (time_time e now) k q)
                       (decay_score e d (time_time e now) k' q')))
      | None \<Rightarrow> (\<forall>(k', q') \<in> set ra. dict_in k' ch \<longrightarrow>
                   decay_score e d (time_time e now) k' q' = PInf))"
proof -
  let ?xs = "map (\<lambda>(key, q). (key, decay_score e d (time_time e now) key q)) ra"
  from assms have v: "fst (min_scan (\<lambda>key. dict_in key ch) ?xs (None, PInf)) = v" and n: "now1 = Suc now"
    by (auto simp: decay_choose_victim_def Let_def)
  from min_scan_result [OF v] n show ?thesis
    by (cases v) (fastforce)+
qed

lemma decay_update_result:
  "\<exists>ra1. decay_update_internal_cache e ra m key now = (ra1, Suc now) \<and>
     (\<forall>k. dict_get ra1 k =
        (if k = key
         then Some (drop (length (case dict_get ra key of Some q \<Rightarrow> q | None \<Rightarrow> []) + 1 - m)
                      ((case dict_get ra key of Some q \<Rightarrow> q | None \<Rightarrow> []) @ [time_time e now]))
         else dict_get ra k))"
  by (auto simp: decay_update_internal_cache_def Let_def dict_in_def dict_get_set deque_append_def)

text \<open>
  C7, as amended. The decayed-recency policy considers only the keys that have a queue; a
  resident key that was never recorded, such as the first key inserted into an empty mapping,
  is no candidate. \<open>choose_victim\<close> leaves the policy unchanged and returns a resident key
  that has a queue and whose computed score is least among the resident keys that have a
  queue, or none when every such key has an infinite score, in particular when no resident key
  has a queue. The score is computed in float arithmetic, for every rounding of it, as
  \<open>1 / (2 * now - sum of t_i * d ^ i)\<close> over the queue from oldest to newest, infinite where
  the computed divisor is zero, 0 for an empty queue, and divided by 8 for a large key; under
  exact arithmetic it is the specification's \<open>recency_score\<close>. \<open>record_access\<close> appends the
  clock reading to the queue of the key, from an empty queue if it has none, and keeps the last
  10 items.
\<close>

theorem decayed_recency_policy:
  "(\<exists>v. choose_victim e (LFUDADecayFactorEvictor ra 10 d) ch now
           = Inr (v, LFUDADecayFactorEvictor ra 10 d, Suc now) \<and>
      (case v of
         Some k \<Rightarrow> dict_in k ch \<and>
           (\<exists>q. (k, q) \<in> set ra \<and>
              (\<forall>(k', q') \<in> set ra. dict_in k' ch \<longrightarrow>
                 ext_le (decay_score e d (time_time e now) k q)
                        (decay_score e d (time_time e now) k' q')))
       | None \<Rightarrow> (\<forall>(k', q') \<in> set ra. dict_in k' ch \<longrightarrow>
                    decay_score e d (time_time e now) k' q' = PInf))) \<and>
   ((\<forall>x. fl_round e x = x) \<longrightarrow>
      (\<forall>t k q. decay_score e d t k q =
         (if q \<noteq> [] \<and> 2 * t - (\<Sum>i<length q. q ! i * d ^ i) = 0 then PInf
          else Fin (recency_score d t k q)))) \<and>
   (\<exists>ra1. update_internal_cache e (LFUDADecayFactorEvictor ra 10 d) ch key now
             = (LFUDADecayFactorEvictor ra1 10 d, Suc now) \<and>
      (\<forall>k. dict_get ra1 k =
         (if k = key
          then Some (drop (length (case dict_get ra key of Some q \<Rightarrow> q | None \<Rightarrow> []) + 1 - 10)
                       ((case dict_get ra key of Some q \<Rightarrow> q | None \<Rightarrow> []) @ [time_time e now]))
          else dict_get ra k)))"
proof (intro conjI)
  obtain v now1 where r: "decay_choose_victim e ra d ch now = (v, now1)"
    by (cases "decay_choose_victim e ra d ch now")
  from decay_choose_victim_result [OF r] r
  show "\<exists>v. choose_victim e (LFUDADecayFactorEvictor ra 10 d) ch now
           = Inr (v, LFUDADecayFactorEvictor ra 10 d, Suc now) \<and>
      (case v of
         Some k \<Rightarrow> dict_in k ch \<and>
           (\<exists>q. (k, q) \<in> set ra \<and>
              (\<forall>(k', q') \<in> set ra. dict_in k' ch \<longrightarrow>
                 ext_le (decay_score e d (time_time e now) k q)
                        (decay_score e d (time_time e now) k' q')))
       | None \<Rightarrow> (\<forall>(k', q') \<in> set ra. dict_in k' ch \<longrightarrow>
                    decay_score e d (time_time e now) k' q' = PInf))"
    by simp
next
  show "(\<forall>x. fl_round e x = x) \<longrightarrow>
      (\<forall>t k q. decay_score e d t k q =
         (if q \<noteq> [] \<and> 2 * t - (\<Sum>i<length q. q ! i * d ^ i) = 0 then PInf
          else Fin (recency_score d t k q)))"
    using decay_score_exact by blast
next
  from decay_update_result [of e ra 10 key now]
  show "\<exists>ra1. update_internal_cache e (LFUDADecayFactorEvictor ra 10 d) ch key now
             = (LFUDADecayFactorEvictor ra1 10 d, Suc now) \<and>
      (\<forall>k. dict_get ra1 k =
         (if k = key
          then Some (drop (length (case dict_get ra key of Some q \<Rightarrow> q | None \<Rightarrow> []) + 1 - 10)
                       ((case dict_get ra key of Some q \<Rightarrow> q | None \<Rightarrow> []) @ [time_time e now]))
          else dict_get ra k))"
    by auto
qed

text \<open>
  C7 as stated fails: \<open>choose_victim\<close> does not always return a resident key. After the first
  read of a new store the block at offset 0 is resident and the policy has no queue; the hook
  of the next insertion gives the incoming key a queue, and the selection that follows returns
  none although a key is resident.
\<close>

theorem decayed_recency_counterexample:
  "observe (gets (example_env (replicate 200 0)) (Cache_init ''data.bin'' (Some 8) None)
      [(0, B8)] module_world)
     = Inr ([(False, 8)], [(CacheKey 0 B8, 8)], 8) \<and>
   policy_after (gets (example_env (replicate 200 0)) (Cache_init ''data.bin'' (Some 8) None)
      [(0, B8)] module_world)
     = Inr (LFUDADecayFactorEvictor [] 10 (1 / 2)) \<and>
   update_internal_cache (example_env (replicate 200 0)) (LFUDADecayFactorEvictor [] 10 (1 / 2))
      [(CacheKey 0 B8, CacheValue (replicate 8 0) 1 1)] (CacheKey 8 B8) 1
     = (LFUDADecayFactorEvictor [(CacheKey 8 B8, [2])] 10 (1 / 2), 2) \<and>
   choose_victim (example_env (replicate 200 0))
      (LFUDADecayFactorEvictor [(CacheKey 8 B8, [2])] 10 (1 / 2))
      [(CacheKey 0 B8, CacheValue (replicate 8 0) 1 1)] 2
     = Inr (None, LFUDADecayFactorEvictor [(CacheKey 8 B8, [2])] 10 (1 / 2), 3) \<and>
   dict_in (CacheKey 0 B8) [(CacheKey 0 B8, CacheValue (replicate 8 0) 1 1)]"
  by (simp add: run_defs observe_def policy_after_def)

theorem decayed_recency_policy_witness:
  "choose_victim (example_env [])
      (LFUDADecayFactorEvictor [(CacheKey 8 B8, [2]), (CacheKey 16 B8, [3]), (CacheKey 64 B64, [4])] 10 (1 / 2))
      [(CacheKey 0 B8, CacheValue [] 1 1), (CacheKey 8 B8, CacheValue [] 2 1),
       (CacheKey 16 B8, CacheValue [] 3 1)] 4
     = Inr (Some (CacheKey 8 B8),
            LFUDADecayFactorEvictor [(CacheKey 8 B8, [2]), (CacheKey 16 B8, [3]), (CacheKey 64 B64, [4])] 10 (1 / 2),
            5) \<and>
   decay_score (example_env []) (1 / 2) 5 (CacheKey 8 B8) [2] = Fin (1 / 8) \<and>
   decay_score (example_env []) (1 / 2) 5 (CacheKey 16 B8) [3] = Fin (1 / 7) \<and>
   decay_score (example_env []) (1 / 2) 5 (CacheKey 64 B64) [4] = Fin (1 / 48) \<and>
   decay_score (example_env []) (1 / 2) 5 (CacheKey 8 B8) [2, 4] = Fin (1 / 6) \<and>
   recency_score (1 / 2) 5 (CacheKey 8 B8) [2, 4] = 1 / 6 \<and>
   fst (update_internal_cache (example_env [])
      (LFUDADecayFactorEvictor [(CacheKey 8 B8, [2]), (CacheKey 16 B8, [3]), (CacheKey 64 B64, [4])] 10 (1 / 2))
      [] (CacheKey 8 B8) 4)
     = LFUDADecayFactorEvictor [(CacheKey 8 B8, [2, 5]), (CacheKey 16 B8, [3]), (CacheKey 64 B64, [4])] 10 (1 / 2)"
proof -
  let ?e = "example_env []"
  let ?ra = "[(CacheKey 8 B8, [2]), (CacheKey 16 B8, [3]), (CacheKey 64 B64, [4])]"
  let ?ch = "[(CacheKey 0 B8, CacheValue [] 1 1), (CacheKey 8 B8, CacheValue [] 2 1),
       (CacheKey 16 B8, CacheValue [] 3 1)]"
  note th = decayed_recency_policy [of ?e ?ra "1 / 2" ?ch 4 "CacheKey 8 B8"]
  have exact: "\<forall>x. fl_round ?e x = x" by (simp add: example_env_def)
  note all = mp [OF th [THEN conjunct2, THEN conjunct1] exact]
  have link: "decay_score ?e (1 / 2) 5 (CacheKey 8 B8) [2, 4]
      = (if [2, 4 :: real] \<noteq> [] \<and> 2 * 5 - (\<Sum>i<length [2, 4 :: real]. [2, 4] ! i * (1 / 2) ^ i) = (0 :: real)
         then PInf else Fin (recency_score (1 / 2) 5 (CacheKey 8 B8) [2, 4]))"
    by (rule all [THEN spec, THEN spec, THEN spec])
  have s: "decay_score ?e (1 / 2) 5 (CacheKey 8 B8) [2, 4] = Fin (1 / 6)"
    by (simp add: run_defs)
  have sm: "(\<Sum>i<length [2, 4 :: real]. [2, 4] ! i * (1 / 2) ^ i) = (4 :: real)"
    by (simp add: lessThan_Suc eval_nat_numeral)
  from link s sm have rs: "recency_score (1 / 2) 5 (CacheKey 8 B8) [2, 4] = 1 / 6" by simp
  have computed: "choose_victim ?e (LFUDADecayFactorEvictor ?ra 10 (1 / 2)) ?ch 4
     = Inr (Some (CacheKey 8 B8), LFUDADecayFactorEvictor ?ra 10 (1 / 2), 5) \<and>
   decay_score ?e (1 / 2) 5 (CacheKey 8 B8) [2] = Fin (1 / 8) \<and>
   decay_score ?e (1 / 2) 5 (CacheKey 16 B8) [3] = Fin (1 / 7) \<and>
   decay_score ?e (1 / 2) 5 (CacheKey 64 B64) [4] = Fin (1 / 48) \<and>
   fst (update_internal_cache ?e (LFUDADecayFactorEvictor ?ra 10 (1 / 2)) [] (CacheKey 8 B8) 4)
     = LFUDADecayFactorEvictor [(CacheKey 8 B8, [2, 5]), (CacheKey 16 B8, [3]), (CacheKey 64 B64, [4])] 10 (1 / 2)"
    by (simp add: run_defs)
  from computed s rs show ?thesis by simp
qed

section \<open>The frequency+recency policy\<close>

lemma lfuda_recency_Inr:
  assumes "lfuda_recency e (dict_get la k) n = Inr (r, n1)"
  shows "n1 = n + lfuda_reads e (dict_get la k) n \<and>
         lfuda_stored_score e k (py_add_int e f r) = combined_score_at e la k f n"
  using assms
  by (auto simp: lfuda_recency_def lfuda_reads_def lfuda_stored_score_def combined_score_at_def
        py_truediv_def Let_def split: option.splits if_splits)

lemma lfuda_scores_positions:
  "lfuda_scores e la fc now = Inr (xs, now1) \<Longrightarrow>
   xs = map (\<lambda>(k, f, n). (k, Fin (combined_score_at e la k f n))) (lfuda_positions e la fc now)"
proof (induction fc arbitrary: now xs)
  case Nil
  then show ?case by simp
next
  case (Cons p fc)
  obtain k f where p: "p = (k, f)" by (cases p)
  from Cons.prems p obtain r n1 xs' where
    r: "lfuda_recency e (dict_get la k) now = Inr (r, n1)" and
    rest: "lfuda_scores e la fc n1 = Inr (xs', now1)" and
    xs: "xs = (k, Fin (lfuda_stored_score e k (py_add_int e f r))) # xs'"
    by (auto simp: Let_def split: sum.splits prod.splits)
  from lfuda_recency_Inr [OF r, of f] have n1: "n1 = now + lfuda_reads e (dict_get la k) now"
    and sc: "lfuda_stored_score e k (py_add_int e f r) = combined_score_at e la k f now"
    by simp_all
  from Cons.IH [OF rest] xs n1 sc p show ?case by simp
qed

lemma lfuda_positions_keys: "map (\<lambda>(k, f, n). (k, f)) (lfuda_positions e la fc now) = fc"
  by (induction fc arbitrary: now) auto

lemma lfuda_choose_victim_positions:
  assumes "lfuda_choose_victim e fc la ch now = Inr (v, now1)"
  shows "case v of
           Some k \<Rightarrow> dict_in k ch \<and>
             (\<exists>f n. (k, f, n) \<in> set (lfuda_positions e la fc now) \<and>
                (\<forall>(k', f', n') \<in> set (lfuda_positions e la fc now). dict_in k' ch \<longrightarrow>
                   combined_score_at e la k f n \<le> combined_score_at e la k' f' n'))
         | None \<Rightarrow> (\<forall>(k', f') \<in> set fc. \<not> dict_in k' ch)"
proof -
  let ?ps = "lfuda_positions e la fc now"
  let ?xs = "map (\<lambda>(k, f, n). (k, Fin (combined_score_at e la k f n))) ?ps"
  from assms obtain xs where sc: "lfuda_scores e la fc now = Inr (xs, now1)"
    and v0: "fst (min_scan (\<lambda>key. dict_in key ch) xs (None, PInf)) = v"
    by (auto simp: lfuda_choose_victim_def split: sum.splits prod.splits)
  from lfuda_scores_positions [OF sc] v0
  have v: "fst (min_scan (\<lambda>key. dict_in key ch) ?xs (None, PInf)) = v" by simp
  note r = min_scan_result [OF v]
  show ?thesis
  proof (cases v)
    case None
    with r have all: "\<forall>(k', s') \<in> set ?xs. dict_in k' ch \<longrightarrow> s' = PInf" by simp
    have "\<not> dict_in k' ch" if "(k', f') \<in> set fc" for k' f'
    proof
      assume res: "dict_in k' ch"
      from that have "(k', f') \<in> set (map (\<lambda>(k, f, n). (k, f)) ?ps)"
        by (simp only: lfuda_positions_keys)
      then obtain n' where "(k', f', n') \<in> set ?ps" by auto
      then have "(k', Fin (combined_score_at e la k' f' n')) \<in> set ?xs" by force
      with all res show False by fastforce
    qed
    with None show ?thesis by auto
  next
    case (Some k)
    with r have ok: "dict_in k ch" and
      ex: "\<exists>s. (k, s) \<in> set ?xs \<and> (\<forall>(k', s') \<in> set ?xs. dict_in k' ch \<longrightarrow> ext_le s s')"
      by simp_all
    from ex obtain s where mem: "(k, s) \<in> set ?xs"
      and least: "\<forall>(k', s') \<in> set ?xs. dict_in k' ch \<longrightarrow> ext_le s s'" by blast
    from mem obtain f n where p: "(k, f, n) \<in> set ?ps" and s: "s = Fin (combined_score_at e la k f n)"
      by auto
    have "combined_score_at e la k f n \<le> combined_score_at e la k' f' n'"
      if "(k', f', n') \<in> set ?ps" "dict_in k' ch" for k' f' n'
    proof -
      from that(1) have "(k', Fin (combined_score_at e la k' f' n')) \<in> set ?xs" by force
      with least that(2) have "ext_le s (Fin (combined_score_at e la k' f' n'))" by fastforce
      with s show ?thesis by (simp add: ext_le_def)
    qed
    then have "\<forall>(k', f', n') \<in> set ?ps. dict_in k' ch \<longrightarrow>
        combined_score_at e la k f n \<le> combined_score_at e la k' f' n'"
      by auto
    with p have "\<exists>f n. (k, f, n) \<in> set ?ps \<and>
        (\<forall>(k', f', n') \<in> set ?ps. dict_in k' ch \<longrightarrow>
           combined_score_at e la k f n \<le> combined_score_at e la k' f' n')"
      by blast
    with ok Some show ?thesis by simp
  qed
qed

lemma lfuda_scores_completes:
  assumes mono: "\<forall>i j. now0 \<le> i \<and> i \<le> j \<longrightarrow> time_time e i \<le> time_time e j"
    and past: "\<forall>(k, x) \<in> set la. x \<le> time_time e now0"
    and zero: "\<forall>n. \<forall>(k, x) \<in> set la. fl_round e (time_time e n - x) = 0 \<longleftrightarrow> time_time e n = x"
  shows "now0 \<le> now \<Longrightarrow> \<exists>xs now1. lfuda_scores e la fc now = Inr (xs, now1)"
proof (induction fc arbitrary: now)
  case Nil
  then show ?case by simp
next
  case (Cons p fc)
  obtain k f where p: "p = (k, f)" by (cases p)
  have "\<exists>r n1. lfuda_recency e (dict_get la k) now = Inr (r, n1) \<and> now0 \<le> n1"
  proof (cases "dict_get la k")
    case None
    with Cons.prems show ?thesis by (simp add: lfuda_recency_def Let_def)
  next
    case (Some x)
    then have mem: "(k, x) \<in> set la" by (rule dict_get_Some_mem)
    with zero have zx: "\<And>n. fl_round e (time_time e n - x) = 0 \<longleftrightarrow> time_time e n = x"
      by auto
    from mem past have "x \<le> time_time e now0" by auto
    also from mono Cons.prems have "time_time e now0 \<le> time_time e now" by simp
    finally have a: "x \<le> time_time e now" .
    from mono Cons.prems have b: "time_time e now \<le> time_time e (Suc now)" by simp
    have "fl_round e (time_time e (Suc now) - x) \<noteq> 0"
      if "fl_round e (time_time e now - x) \<noteq> 0"
    proof -
      from that zx have "time_time e now \<noteq> x" by blast
      with a b have "time_time e (Suc now) \<noteq> x" by simp
      with zx show ?thesis by blast
    qed
    with Some Cons.prems show ?thesis
      by (auto simp: lfuda_recency_def py_truediv_def Let_def)
  qed
  then obtain r n1 where r: "lfuda_recency e (dict_get la k) now = Inr (r, n1)" and le: "now0 \<le> n1"
    by blast
  from Cons.IH [OF le] obtain xs now1 where "lfuda_scores e la fc n1 = Inr (xs, now1)" by blast
  with r p show ?case by (simp add: Let_def)
qed

lemma lfuda_update_result:
  "\<exists>fc1 la1. lfuda_update_internal_cache e fc la key now = ((fc1, la1), Suc now) \<and>
     (\<forall>k. dict_get fc1 k =
        (if k = key then Some ((case dict_get fc key of Some n \<Rightarrow> n | None \<Rightarrow> 0) + 1)
         else dict_get fc k)) \<and>
     (\<forall>k. dict_get la1 k = (if k = key then Some (time_time e now) else dict_get la k))"
  by (auto simp: lfuda_update_internal_cache_def Let_def dict_in_def dict_get_set)

text \<open>
  C8, as amended. The frequency+recency policy considers only the keys that have a count.
  Whenever \<open>choose_victim\<close> returns, it has left the policy unchanged and returns a resident
  key that has a count and whose combined score is least among the resident keys that have a
  count, or none when no resident key has a count. The loop reads the clock anew for every key,
  once or twice, so the score of a key is computed from the readings taken when the loop reaches
  that key (\<open>combined_score_at\<close>): the count plus the recency term, divided by 8, not halved,
  for a key that is not small. The call returns when the clock does not run backwards, no
  recorded access lies after the first reading, and the computed difference of a reading and a
  recorded time is zero only when they are equal; otherwise the quotient may raise. \<open>record_access\<close> adds one to the count of
  the key (from 0 if it has none) and records the clock reading as its last access.
\<close>

theorem frequency_recency_policy:
  "(\<forall>v ev now1. choose_victim e (LFUDAEvictor fc la) ch now = Inr (v, ev, now1) \<longrightarrow>
      ev = LFUDAEvictor fc la \<and>
      (case v of
         Some k \<Rightarrow> dict_in k ch \<and>
           (\<exists>f n. (k, f, n) \<in> set (lfuda_positions e la fc now) \<and>
              (\<forall>(k', f', n') \<in> set (lfuda_positions e la fc now). dict_in k' ch \<longrightarrow>
                 combined_score_at e la k f n \<le> combined_score_at e la k' f' n'))
       | None \<Rightarrow> (\<forall>(k', f') \<in> set fc. \<not> dict_in k' ch))) \<and>
   map (\<lambda>(k, f, n). (k, f)) (lfuda_positions e la fc now) = fc \<and>
   ((\<forall>i j. now \<le> i \<and> i \<le> j \<longrightarrow> time_time e i \<le> time_time e j) \<and>
    (\<forall>(k, x) \<in> set la. x \<le> time_time e now) \<and>
    (\<forall>n. \<forall>(k, x) \<in> set la. fl_round e (time_time e n - x) = 0 \<longleftrightarrow> time_time e n = x) \<longrightarrow>
      (\<exists>v now1. choose_victim e (LFUDAEvictor fc la) ch now = Inr (v, LFUDAEvictor fc la, now1))) \<and>
   (\<exists>fc1 la1. update_internal_cache e (LFUDAEvictor fc la) ch key now
                 = (LFUDAEvictor fc1 la1, Suc now) \<and>
      (\<forall>k. dict_get fc1 k =
         (if k = key then Some ((case dict_get fc key of Some n \<Rightarrow> n | None \<Rightarrow> 0) + 1)
          else dict_get fc k)) \<and>
      (\<forall>k. dict_get la1 k = (if k = key then Some (time_time e now) else dict_get la k)))"
proof (intro conjI)
  show "\<forall>v ev now1. choose_victim e (LFUDAEvictor fc la) ch now = Inr (v, ev, now1) \<longrightarrow>
      ev = LFUDAEvictor fc la \<and>
      (case v of
         Some k \<Rightarrow> dict_in k ch \<and>
           (\<exists>f n. (k, f, n) \<in> set (lfuda_positions e la fc now) \<and>
              (\<forall>(k', f', n') \<in> set (lfuda_positions e la fc now). dict_in k' ch \<longrightarrow>
                 combined_score_at e la k f n \<le> combined_score_at e la k' f' n'))
       | None \<Rightarrow> (\<forall>(k', f') \<in> set fc. \<not> dict_in k' ch))"
  proof (intro allI impI)
    fix v ev now1
    assume "choose_victim e (LFUDAEvictor fc la) ch now = Inr (v, ev, now1)"
    then have ev: "ev = LFUDAEvictor fc la" and
      r: "lfuda_choose_victim e fc la ch now = Inr (v, now1)"
      by (auto split: sum.splits prod.splits)
    from lfuda_choose_victim_positions [OF r] ev
    show "ev = LFUDAEvictor fc la \<and>
      (case v of
         Some k \<Rightarrow> dict_in k ch \<and>
           (\<exists>f n. (k, f, n) \<in> set (lfuda_positions e la fc now) \<and>
              (\<forall>(k', f', n') \<in> set (lfuda_positions e la fc now). dict_in k' ch \<longrightarrow>
                 combined_score_at e la k f n \<le> combined_score_at e la k' f' n'))
       | None \<Rightarrow> (\<forall>(k', f') \<in> set fc. \<not> dict_in k' ch))"
      by simp
  qed
next
  show "map (\<lambda>(k, f, n). (k, f)) (lfuda_positions e la fc now) = fc"
    by (rule lfuda_positions_keys)
next
  show "(\<forall>i j. now \<le> i \<and> i \<le> j \<longrightarrow> time_time e i \<le> time_time e j) \<and>
    (\<forall>(k, x) \<in> set la. x \<le> time_time e now) \<and>
    (\<forall>n. \<forall>(k, x) \<in> set la. fl_round e (time_time e n - x) = 0 \<longleftrightarrow> time_time e n = x) \<longrightarrow>
      (\<exists>v now1. choose_victim e (LFUDAEvictor fc la) ch now = Inr (v, LFUDAEvictor fc la, now1))"
  proof
    assume a: "(\<forall>i j. now \<le> i \<and> i \<le> j \<longrightarrow> time_time e i \<le> time_time e j) \<and>
      (\<forall>(k, x) \<in> set la. x \<le> time_time e now) \<and>
      (\<forall>n. \<forall>(k, x) \<in> set la. fl_round e (time_time e n - x) = 0 \<longleftrightarrow> time_time e n = x)"
    then have mono: "\<forall>i j. now \<le> i \<and> i \<le> j \<longrightarrow> time_time e i \<le> time_time e j"
      and past: "\<forall>(k, x) \<in> set la. x \<le> time_time e now"
      and zero: "\<forall>n. \<forall>(k, x) \<in> set la. fl_round e (time_time e n - x) = 0 \<longleftrightarrow> time_time e n = x"
      by simp_all
    from lfuda_scores_completes [OF mono past zero, of now fc] obtain xs now1 where
      "lfuda_scores e la fc now = Inr (xs, now1)" by auto
    then show "\<exists>v now1. choose_victim e (LFUDAEvictor fc la) ch now
        = Inr (v, LFUDAEvictor fc la, now1)"
      by (simp add: lfuda_choose_victim_def)
  qed
next
  from lfuda_update_result [of e fc la key now] obtain fc1 la1 where
    u: "lfuda_update_internal_cache e fc la key now = ((fc1, la1), Suc now)" and
    a: "\<forall>k. dict_get fc1 k =
         (if k = key then Some ((case dict_get fc key of Some n \<Rightarrow> n | None \<Rightarrow> 0) + 1)
          else dict_get fc k)" and
    b: "\<forall>k. dict_get la1 k = (if k = key then Some (time_time e now) else dict_get la k)"
    by blast
  from u have "update_internal_cache e (LFUDAEvictor fc la) ch key now
                 = (LFUDAEvictor fc1 la1, Suc now)" by simp
  with a b show "\<exists>fc1 la1. update_internal_cache e (LFUDAEvictor fc la) ch key now
                 = (LFUDAEvictor fc1 la1, Suc now) \<and>
      (\<forall>k. dict_get fc1 k =
         (if k = key then Some ((case dict_get fc key of Some n \<Rightarrow> n | None \<Rightarrow> 0) + 1)
          else dict_get fc k)) \<and>
      (\<forall>k. dict_get la1 k = (if k = key then Some (time_time e now) else dict_get la k))"
    by blast
qed

text \<open>
  C8 as stated fails. A small key of count 1 and a large key of count 4 are resident, both
  last accessed at time 1, and the clock reads 3, 4, 5, 6 during the selection. The large key
  is returned: its score is \<open>(4 + 1/5) / 8 = 21/40\<close>, below the \<open>4/3\<close> of the small key.
  Halved, as the claim has it, the score of the large key is at least \<open>21/10\<close> at every
  instant from 3 to 6, above the at most \<open>3/2\<close> of the small key.
\<close>

theorem frequency_recency_counterexample:
  "choose_victim (example_env [])
      (LFUDAEvictor [(CacheKey 0 B8, 1), (CacheKey 64 B64, 4)] [(CacheKey 0 B8, 1), (CacheKey 64 B64, 1)])
      [(CacheKey 0 B8, CacheValue [] 1 1), (CacheKey 64 B64, CacheValue [] 1 1)] 2
     = Inr (Some (CacheKey 64 B64),
            LFUDAEvictor [(CacheKey 0 B8, 1), (CacheKey 64 B64, 4)] [(CacheKey 0 B8, 1), (CacheKey 64 B64, 1)],
            6) \<and>
   map (time_time (example_env [])) [2, 3, 4, 5] = [3, 4, 5, 6] \<and>
   claimed_combined_score 3 [(CacheKey 0 B8, 1), (CacheKey 64 B64, 1)] (CacheKey 0 B8) 1 = 3 / 2 \<and>
   claimed_combined_score 6 [(CacheKey 0 B8, 1), (CacheKey 64 B64, 1)] (CacheKey 0 B8) 1 = 6 / 5 \<and>
   claimed_combined_score 3 [(CacheKey 0 B8, 1), (CacheKey 64 B64, 1)] (CacheKey 64 B64) 4 = 9 / 4 \<and>
   claimed_combined_score 6 [(CacheKey 0 B8, 1), (CacheKey 64 B64, 1)] (CacheKey 64 B64) 4 = 21 / 10"
  by (simp add: run_defs claimed_combined_score_def claimed_recency_term_def)

theorem frequency_recency_policy_witness:
  "(\<exists>v now1. choose_victim (example_env [])
      (LFUDAEvictor [(CacheKey 0 B8, 1), (CacheKey 64 B64, 4)] [(CacheKey 0 B8, 1), (CacheKey 64 B64, 1)])
      [(CacheKey 0 B8, CacheValue [] 1 1), (CacheKey 64 B64, CacheValue [] 1 1)] 2
     = Inr (v, LFUDAEvictor [(CacheKey 0 B8, 1), (CacheKey 64 B64, 4)]
                 [(CacheKey 0 B8, 1), (CacheKey 64 B64, 1)], now1) \<and>
     v = Some (CacheKey 64 B64) \<and> now1 = 6) \<and>
   lfuda_positions (example_env []) [(CacheKey 0 B8, 1), (CacheKey 64 B64, 1)]
      [(CacheKey 0 B8, 1), (CacheKey 64 B64, 4)] 2
     = [(CacheKey 0 B8, 1, 2), (CacheKey 64 B64, 4, 4)] \<and>
   combined_score_at (example_env []) [(CacheKey 0 B8, 1), (CacheKey 64 B64, 1)] (CacheKey 0 B8) 1 2
     = 4 / 3 \<and>
   combined_score_at (example_env []) [(CacheKey 0 B8, 1), (CacheKey 64 B64, 1)] (CacheKey 64 B64) 4 4
     = 21 / 40"
proof -
  let ?e = "example_env []"
  let ?fc = "[(CacheKey 0 B8, 1), (CacheKey 64 B64, 4)]"
  let ?la = "[(CacheKey 0 B8, 1), (CacheKey 64 B64, 1)]"
  let ?ch = "[(CacheKey 0 B8, CacheValue [] 1 1), (CacheKey 64 B64, CacheValue [] 1 1)]"
  note th = frequency_recency_policy [of ?e ?fc ?la ?ch 2 "CacheKey 0 B8"]
  have hyp: "(\<forall>i j. 2 \<le> i \<and> i \<le> j \<longrightarrow> time_time ?e i \<le> time_time ?e j) \<and>
    (\<forall>(k, x) \<in> set ?la. x \<le> time_time ?e 2) \<and>
    (\<forall>n. \<forall>(k, x) \<in> set ?la. fl_round ?e (time_time ?e n - x) = 0 \<longleftrightarrow> time_time ?e n = x)"
    by (simp add: example_env_def)
  from mp [OF th [THEN conjunct2, THEN conjunct2, THEN conjunct1] hyp] obtain v now1 where
    r: "choose_victim ?e (LFUDAEvictor ?fc ?la) ?ch 2 = Inr (v, LFUDAEvictor ?fc ?la, now1)"
    by blast
  have computed: "choose_victim ?e (LFUDAEvictor ?fc ?la) ?ch 2
      = Inr (Some (CacheKey 64 B64), LFUDAEvictor ?fc ?la, 6)"
    by (simp add: run_defs)
  with r have v: "v = Some (CacheKey 64 B64)" and n: "now1 = 6" by simp_all
  have pos: "lfuda_positions ?e ?la ?fc 2 = [(CacheKey 0 B8, 1, 2), (CacheKey 64 B64, 4, 4)]"
    by (simp add: lfuda_reads_def example_env_def)
  have s1: "combined_score_at ?e ?la (CacheKey 0 B8) 1 2 = 4 / 3"
    by (simp add: combined_score_at_def example_env_def)
  have s2: "combined_score_at ?e ?la (CacheKey 64 B64) 4 4 = 21 / 40"
    by (simp add: combined_score_at_def example_env_def)
  from r v n pos s1 s2 show ?thesis by blast
qed

section \<open>Selection by the other policies\<close>

lemma dict_in_iff: "dict_in k d \<longleftrightarrow> k \<in> fst ` set d"
  by (simp add: dict_in_def dict_get_None_iff)

lemma dict_in_mem: "(k, v) \<in> set d \<Longrightarrow> dict_in k d"
  by (force simp: dict_in_iff)

lemma choose_oldest_result:
  "case choose_oldest ch of Some k \<Rightarrow> dict_in k ch | None \<Rightarrow> ch = []"
proof -
  let ?xs = "map (\<lambda>(key, v). (key, Fin (access_time v))) ch"
  define v where "v = choose_oldest ch"
  then have "fst (min_scan (\<lambda>_. True) ?xs (None, PInf)) = v" by (simp add: choose_oldest_def)
  note r = min_scan_result [OF this]
  show ?thesis
  proof (cases v)
    case None
    with r have all: "\<forall>(k', s') \<in> set ?xs. s' = PInf" by simp
    have "ch = []"
    proof (cases ch)
      case Nil
      then show ?thesis .
    next
      case (Cons p rest)
      obtain k x where "p = (k, x)" by (cases p)
      with Cons all show ?thesis by simp
    qed
    with None v_def show ?thesis by simp
  next
    case (Some k)
    with r have "\<exists>s. (k, s) \<in> set ?xs" by auto
    then obtain s where "(k, s) \<in> set ?xs" ..
    then obtain x where "(k, x) \<in> set ch" by auto
    then have "dict_in k ch" by (rule dict_in_mem)
    with Some v_def show ?thesis by simp
  qed
qed

lemma min_from_mem: "min_from f best xs \<in> set (best # xs)"
  by (induction xs arbitrary: best) (auto split: if_splits)

lemma lfu_choose_victim_result:
  assumes "ch \<noteq> []"
  shows "\<exists>k fc1. lfu_choose_victim fc ch = Inr (Some k, fc1) \<and> dict_in k ch"
proof -
  from assms obtain p rest where ch: "ch = p # rest" by (cases ch) auto
  let ?f = "\<lambda>k. case dict_get (lfu_bump fc (map fst ch)) k of Some c \<Rightarrow> c | None \<Rightarrow> 0"
  let ?k = "min_from ?f (fst p) (map fst rest)"
  have "?k \<in> set (fst p # map fst rest)" by (rule min_from_mem)
  with ch have "?k \<in> fst ` set ch" by auto
  then have "dict_in ?k ch" by (simp add: dict_in_iff)
  moreover have "lfu_choose_victim fc ch = Inr (Some ?k, lfu_bump fc (map fst ch))"
    using ch by (simp add: lfu_choose_victim_def py_min_def Let_def)
  ultimately show ?thesis by blast
qed

lemma hot_scan_victim:
  "hot_scan ch xs (v0, h0) = (v, h) \<Longrightarrow> v = v0 \<or> (\<exists>k. v = Some k \<and> dict_in k ch)"
proof (induction xs arbitrary: v0 h0)
  case Nil
  then show ?case by simp
next
  case (Cons p xs)
  obtain k s where p: "p = (k, s)" by (cases p)
  show ?case
  proof (cases "dict_in k ch \<and> s > h0")
    case True
    with Cons.prems p have "hot_scan ch xs (Some k, s) = (v, h)" by simp
    from Cons.IH [OF this] True show ?thesis by auto
  next
    case False
    with Cons.prems p have "hot_scan ch xs (v0, h0) = (v, h)" by auto
    from Cons.IH [OF this] show ?thesis .
  qed
qed

lemma hot_choose_victim_result:
  assumes "hot_choose_victim e th hb ch now = Inr (v, hb1, now1)"
  shows "\<exists>k. v = Some k \<and> dict_in k ch"
proof -
  obtain recent n1 where ra: "recently_accessed e th ch now = (recent, n1)"
    by (cases "recently_accessed e th ch now")
  let ?hb = "hot_bump hb (set_order e recent)"
  obtain v' h where sc: "hot_scan ch ?hb (None, 0) = (v', h)"
    by (cases "hot_scan ch ?hb (None, 0)")
  from assms ra sc have "v = v' \<and> v' \<noteq> None"
    by (auto simp: hot_choose_victim_def Let_def split: option.splits if_splits)
  with hot_scan_victim [OF sc] show ?thesis by auto
qed

section \<open>The hot-block heuristic without a victim\<close>

text \<open>
  C9 fails on the code. A store with \<open>max_size = 8\<close> and the hot-block policy reads offset 0
  at time 1 and offset 8 at time 20. The second insertion is over capacity; the resident entry
  was last accessed more than the threshold of 10 seconds ago, so no key is hot, the scan finds
  no victim, and \<open>del self.hot_blocks[None]\<close> raises \<open>KeyError\<close>: \<open>choose_victim\<close> fails on
  a non-empty mapping, and \<open>get\<close> with it. On the same mapping least-recently-used returns
  the resident key.
\<close>

theorem hot_block_no_victim_raises:
  "observe (gets (timed_env [1, 20, 21]) (Cache_init ''data.bin'' (Some 8) (Some hot_block_evictor))
      [(0, B8)] module_world)
     = Inr ([(False, 8)], [(CacheKey 0 B8, 8)], 8) \<and>
   policy_after (gets (timed_env [1, 20, 21])
      (Cache_init ''data.bin'' (Some 8) (Some hot_block_evictor)) [(0, B8)] module_world)
     = Inr (HotBlockEvictor 10 []) \<and>
   choose_victim (timed_env [1, 20, 21]) (HotBlockEvictor 10 [])
      [(CacheKey 0 B8, CacheValue (replicate 8 0) 1 1)] 1
     = Inl KeyError \<and>
   observe (gets (timed_env [1, 20, 21]) (Cache_init ''data.bin'' (Some 8) (Some hot_block_evictor))
      [(0, B8), (8, B8)] module_world)
     = Inl KeyError \<and>
   choose_victim (timed_env [1, 20, 21]) LRUEvictor
      [(CacheKey 0 B8, CacheValue (replicate 8 0) 1 1)] 1
     = Inr (Some (CacheKey 0 B8), LRUEvictor, 1)"
  by (simp add: timed_env_def run_defs observe_def policy_after_def)

end
